theory Spec2Isabelle
  imports Main "HOL-Library.Word"
begin

section \<open>The columnar library: arrays and chunked arrays\<close>

text \<open>
  The ALTREP classes of \<^verbatim>\<open>r/src/altrep.cpp\<close> wrap an \<^verbatim>\<open>arrow::ChunkedArray\<close>.
  The arrow C++ library itself is not part of the file, so the part of it the file
  calls is modelled here: an array is its \<^verbatim>\<open>ArrayData\<close> (type, length, offset,
  validity bitmap, value buffer, dictionary), a chunked array the vector of its chunks.
\<close>

text \<open>\<^verbatim>\<open>arrow::Type::type\<close>: the ids the file switches on; every other id is
  \<open>OTHER_TYPE\<close>.\<close>

datatype type_id =
  BOOL | UINT8 | INT8 | UINT16 | INT16 | UINT32 | INT32 | UINT64 | INT64
  | FLOAT | DOUBLE | STRING | BINARY | LARGE_STRING | DICTIONARY | OTHER_TYPE nat

datatype data_type =
  DataType type_id
  | DictionaryType type_id type_id bool

fun id_of :: "data_type \<Rightarrow> type_id" where
  "id_of (DataType t) = t"
| "id_of (DictionaryType index_t value_t ord) = DICTIONARY"

fun index_type :: "data_type \<Rightarrow> type_id" where
  "index_type (DictionaryType index_t value_t ord) = index_t"
| "index_type (DataType t) = t"

fun ordered :: "data_type \<Rightarrow> bool" where
  "ordered (DictionaryType index_t value_t ord) = ord"
| "ordered (DataType t) = False"

text \<open>
  Modelled from the spec: \<^verbatim>\<open>arrow::Array\<close> / \<^verbatim>\<open>ArrayData\<close> are not in the file.
  The spec's chunk has a length, a null bitmap and raw values. \<open>arr_values\<close> is the
  whole value buffer (buffer 1) and \<open>null_bitmap\<close> the whole validity bitmap (buffer 0,
  absent when the array never had nulls); the array is the window of \<open>arr_length\<close>
  slots that starts at \<open>arr_offset\<close>. For a dictionary array the values are the indices,
  \<open>dictionary\<close> holds the labels and \<open>dict_type\<close> is \<^verbatim>\<open>dictionary()->type_id()\<close>.
\<close>

record 'a array =
  arr_type :: data_type
  arr_length :: nat
  arr_offset :: nat
  null_bitmap :: "bool list option"
  arr_values :: "'a list"
  dict_type :: type_id
  dictionary :: "string list"

record 'a chunked_array =
  chunks :: "'a array list"
  ca_type :: data_type

text \<open>Modelled from the spec: \<^verbatim>\<open>Array::IsNull(j)\<close>, the validity bit of slot \<open>j\<close> of the
  window is unset.\<close>

definition IsNull :: "'a array \<Rightarrow> nat \<Rightarrow> bool" where
  "IsNull a j = (case null_bitmap a of None \<Rightarrow> False | Some bm \<Rightarrow> \<not> bm ! (arr_offset a + j))"

text \<open>Modelled from the spec: \<^verbatim>\<open>data()->GetValues<c_type>(1)[j]\<close>, the raw value of slot
  \<open>j\<close> of the window.\<close>

definition GetValues :: "'a array \<Rightarrow> nat \<Rightarrow> 'a" where
  "GetValues a j = arr_values a ! (arr_offset a + j)"

text \<open>Modelled from the spec: \<^verbatim>\<open>Array::null_count()\<close>, the number of unset validity
  bits in the window.\<close>

definition null_count :: "'a array \<Rightarrow> nat" where
  "null_count a = length (filter (IsNull a) [0..<arr_length a])"

text \<open>Modelled from the spec: \<^verbatim>\<open>ChunkedArray::num_chunks\<close>, \<^verbatim>\<open>length\<close> (the sum of the
  chunk lengths) and \<^verbatim>\<open>null_count\<close> (the sum of the chunks' null counts).\<close>

definition num_chunks :: "'a chunked_array \<Rightarrow> nat" where
  "num_chunks ca = length (chunks ca)"

definition length_ca :: "'a chunked_array \<Rightarrow> nat" where
  "length_ca ca = sum_list (map arr_length (chunks ca))"

definition null_count_ca :: "'a chunked_array \<Rightarrow> nat" where
  "null_count_ca ca = sum_list (map null_count (chunks ca))"

text \<open>Modelled from the spec: \<^verbatim>\<open>Array::Slice(offset, length)\<close>, a view of the same
  buffers on the window moved by \<open>off\<close> and clipped to the array.\<close>

definition Array_Slice :: "'a array \<Rightarrow> nat \<Rightarrow> nat \<Rightarrow> 'a array" where
  "Array_Slice a off len =
     a\<lparr>arr_offset := arr_offset a + off, arr_length := min (arr_length a - off) len\<rparr>"

text \<open>
  Modelled from the spec: \<^verbatim>\<open>ChunkedArray::Slice(offset, length)\<close>, "a slicing operation
  producing a chunk-aligned sub-view". The chunks wholly before \<open>offset\<close> are skipped
  (\<open>Slice_skip\<close> returns the chunks left and the offset into the first of them), then
  chunks are sliced until \<open>length\<close> slots are covered (\<open>Slice_take\<close>). A slice of no
  slots of a chunked array that has chunks is one empty slice of a chunk.
\<close>

fun Slice_skip :: "'a array list \<Rightarrow> nat \<Rightarrow> 'a array list \<times> nat" where
  "Slice_skip [] off = ([], off)"
| "Slice_skip (c # cs) off =
     (if off \<ge> arr_length c then Slice_skip cs (off - arr_length c) else (c # cs, off))"

fun Slice_take :: "'a array list \<Rightarrow> nat \<Rightarrow> nat \<Rightarrow> 'a array list" where
  "Slice_take [] off len = []"
| "Slice_take (c # cs) off len =
     (if len > 0
      then Array_Slice c off len # Slice_take cs 0 (len - (arr_length c - off))
      else [])"

definition Slice :: "'a chunked_array \<Rightarrow> nat \<Rightarrow> nat \<Rightarrow> 'a chunked_array" where
  "Slice ca off len =
     (let (rest, off') = Slice_skip (chunks ca) off;
          curr_chunk = num_chunks ca - length rest
      in if num_chunks ca > 0 \<and> (off = length_ca ca \<or> len = 0)
         then ca\<lparr>chunks := [Array_Slice (chunks ca ! min curr_chunk (num_chunks ca - 1)) 0 0]\<rparr>
         else ca\<lparr>chunks := Slice_take rest off' len\<rparr>)"

section \<open>The position resolver\<close>

text \<open>\<^verbatim>\<open>struct ArrayResolve\<close>: the chunk that holds global index \<open>i\<close>, the index in
  that chunk and the chunk's ordinal. When no chunk holds \<open>i\<close> the members keep their
  initial values: a null \<open>array'\<close> and zeros.\<close>

text \<open>The members \<^verbatim>\<open>array_\<close>, \<^verbatim>\<open>index_\<close> and \<^verbatim>\<open>position_\<close> are written with a prime.\<close>

record 'a ArrayResolve_t =
  array' :: "'a array option"
  index' :: nat
  position' :: nat

fun ArrayResolve_loop :: "'a array list \<Rightarrow> nat \<Rightarrow> nat \<Rightarrow> 'a ArrayResolve_t" where
  "ArrayResolve_loop [] i idx_chunk = \<lparr>array' = None, index' = 0, position' = 0\<rparr>"
| "ArrayResolve_loop (chunk # rest) i idx_chunk =
     (if i < arr_length chunk
      then \<lparr>array' = Some chunk, index' = i, position' = idx_chunk\<rparr>
      else ArrayResolve_loop rest (i - arr_length chunk) (idx_chunk + 1))"

definition ArrayResolve :: "'a chunked_array \<Rightarrow> nat \<Rightarrow> 'a ArrayResolve_t" where
  "ArrayResolve chunked_array i = ArrayResolve_loop (chunks chunked_array) i 0"

section \<open>The R session and the ALTREP object\<close>

text \<open>
  The part of the R session the classes touch. \<open>heap\<close> holds the standard vectors
  allocated so far, a vector's address being its position; \<open>garbage\<close> is what the
  cells of a freshly allocated vector hold before anything is written to them;
  \<open>options\<close> are the R options read through \<^verbatim>\<open>GetBoolOption\<close>; \<open>warnings\<close> are the
  warnings signalled so far, oldest first.
\<close>

record 'v R_session =
  heap :: "'v list list"
  garbage :: "nat \<Rightarrow> 'v"
  options :: "string \<rightharpoonup> bool"
  warnings :: "string list"

text \<open>\<^verbatim>\<open>Rf_allocVector(type, size)\<close>: a fresh vector of \<open>n\<close> cells, at a new address.\<close>

definition Rf_allocVector :: "nat \<Rightarrow> 'v R_session \<Rightarrow> nat \<times> 'v R_session" where
  "Rf_allocVector n r = (length (heap r), r\<lparr>heap := heap r @ [map (garbage r) [0..<n]]\<rparr>)"

text \<open>Writing a vector's data through its \<^verbatim>\<open>DATAPTR\<close>.\<close>

definition set_vector :: "nat \<Rightarrow> 'v list \<Rightarrow> 'v R_session \<Rightarrow> 'v R_session" where
  "set_vector p xs r = r\<lparr>heap := (heap r)[p := xs]\<rparr>"

text \<open>Modelled from the spec: \<^verbatim>\<open>GetBoolOption(name, default)\<close> is defined elsewhere in
  the R package; it is the option's value when the option is set to a logical, and the
  default otherwise.\<close>

definition GetBoolOption :: "(string \<rightharpoonup> bool) \<Rightarrow> string \<Rightarrow> bool \<Rightarrow> bool" where
  "GetBoolOption opts name dflt = (case opts name of None \<Rightarrow> dflt | Some b \<Rightarrow> b)"

text \<open>
  \<^verbatim>\<open>AltrepVectorBase\<close>: the ALTREP object. \<open>data1\<close> is the wrapped chunked array,
  \<open>data2\<close> the representation: \<open>None\<close> for \<^verbatim>\<open>R_NilValue\<close>, else the address of a
  standard vector. The factor class keeps a pairlist in data2, whose second node holds
  the transpose buffers when the dictionaries were unified, and the object carries its
  levels and class as attributes.
\<close>

record 'a altrep =
  data1 :: "'a chunked_array"
  data2 :: "nat option"

datatype factor_class = classes_factor | classes_ordered

record 'a altrep_factor = "'a altrep" +
  arrays_transpose :: "32 word list list option"
  levels :: "string list"
  class_attr :: factor_class

definition Make :: "'a chunked_array \<Rightarrow> 'a altrep" where
  "Make chunked_array = \<lparr>data1 = chunked_array, data2 = None\<rparr>"

definition Representation :: "('a, 'z) altrep_scheme \<Rightarrow> nat option" where
  "Representation alt = data2 alt"

definition SetRepresentation ::
  "('a, 'z) altrep_scheme \<Rightarrow> nat \<Rightarrow> ('a, 'z) altrep_scheme" where
  "SetRepresentation alt x = alt\<lparr>data2 := Some x\<rparr>"

definition IsMaterialized :: "('a, 'z) altrep_scheme \<Rightarrow> bool" where
  "IsMaterialized alt = (Representation alt \<noteq> None)"

definition Length :: "('a, 'z) altrep_scheme \<Rightarrow> nat" where
  "Length alt = length_ca (data1 alt)"

definition No_NA :: "('a, 'z) altrep_scheme \<Rightarrow> bool" where
  "No_NA alt = (null_count_ca (data1 alt) = 0)"

section \<open>The primitive class: \<^verbatim>\<open>AltrepVectorPrimitive\<close>\<close>

text \<open>
  The template is modelled once, for any element type \<open>'a\<close> (\<^verbatim>\<open>c_type\<close>: double for
  REALSXP, int for INTSXP); \<open>na\<close> is R's sentinel \<^verbatim>\<open>cpp11::na<c_type>()\<close>. A state is the
  ALTREP object together with the R session.

  A buffer handed in by the caller is a list of cells; \<open>write_buf buf pos xs\<close> stores
  \<open>xs\<close> in the cells from \<open>pos\<close> on (the caller provides the room).
\<close>

definition write_buf :: "'v list \<Rightarrow> nat \<Rightarrow> 'v list \<Rightarrow> 'v list" where
  "write_buf buf pos xs = take pos buf @ xs @ drop (pos + length xs) buf"

text \<open>Modelled from the spec: \<^verbatim>\<open>Standard_Get_region\<close> forwards to R's
  \<^verbatim>\<open>REAL_GET_REGION\<close> / \<^verbatim>\<open>INTEGER_GET_REGION\<close> on the standard vector: "copy directly
  from the cache (count = min(n, length-start))".\<close>

definition Standard_Get_region :: "'v list \<Rightarrow> nat \<Rightarrow> nat \<Rightarrow> 'v list \<Rightarrow> nat \<times> 'v list" where
  "Standard_Get_region x i n buf =
     (let ncopy = min n (length x - i) in (ncopy, write_buf buf 0 (take ncopy (drop i x))))"

text \<open>One round of the loop of \<^verbatim>\<open>Get_region\<close>: the \<^verbatim>\<open>memcpy\<close> of the chunk's raw values,
  then, when the chunk has nulls, the pass of the bitmap reader that stores the sentinel
  wherever the validity bit is not set.\<close>

definition copy_chunk :: "'a \<Rightarrow> 'a array \<Rightarrow> 'a list" where
  "copy_chunk na array =
     (let n_i = arr_length array;
          out = map (GetValues array) [0..<n_i]
      in if null_count array > 0
         then map (\<lambda>j. if IsNull array j then na else out ! j) [0..<n_i]
         else out)"

fun Get_region_loop :: "'a \<Rightarrow> 'a array list \<Rightarrow> nat \<Rightarrow> 'a list \<Rightarrow> 'a list" where
  "Get_region_loop na [] out buf = buf"
| "Get_region_loop na (array # rest) out buf =
     Get_region_loop na rest (out + arr_length array) (write_buf buf out (copy_chunk na array))"

definition Get_region ::
  "'a \<Rightarrow> 'a altrep \<Rightarrow> 'a R_session \<Rightarrow> nat \<Rightarrow> nat \<Rightarrow> 'a list \<Rightarrow> nat \<times> 'a list" where
  "Get_region na alt r i n buf =
     (case Representation alt of
        Some p \<Rightarrow> Standard_Get_region (heap r ! p) i n buf
      | None \<Rightarrow>
          (let slice = Slice (data1 alt) i n;
               ncopy = length_ca slice
           in (ncopy, Get_region_loop na (chunks slice) 0 buf)))"

text \<open>\<^verbatim>\<open>Materialize\<close>: when data2 is still \<^verbatim>\<open>R_NilValue\<close>, allocate a vector of
  \<open>Length\<close> cells, fill it through \<open>Get_region\<close> and store it as data2. The result is
  the representation, with the new object and session.\<close>

definition Materialize ::
  "'a \<Rightarrow> 'a altrep \<times> 'a R_session \<Rightarrow> nat \<times> 'a altrep \<times> 'a R_session" where
  "Materialize na s =
     (case s of (alt, r) \<Rightarrow>
        (case Representation alt of
           None \<Rightarrow>
             (let sz = Length alt;
                  (copy, r1) = Rf_allocVector sz r;
                  (ncopy, buf) = Get_region na alt r1 0 sz (heap r1 ! copy);
                  r2 = set_vector copy buf r1
              in (copy, SetRepresentation alt copy, r2))
         | Some p \<Rightarrow> (p, alt, r)))"

text \<open>What a data pointer points to: nothing, the values of a chunk of the source
  (\<^verbatim>\<open>chunk(k)->data()->GetValues<c_type>(1)\<close>), or the data of a standard vector.\<close>

datatype pointer = nullptr | ChunkValues nat | VectorData nat

definition Dataptr_or_null :: "'a altrep \<Rightarrow> pointer" where
  "Dataptr_or_null alt =
     (case Representation alt of
        Some p \<Rightarrow> VectorData p
      | None \<Rightarrow>
          (let chunked_array = data1 alt
           in if num_chunks chunked_array = 1 \<and> null_count_ca chunked_array = 0
              then ChunkValues 0
              else nullptr))"

definition Dataptr ::
  "'a \<Rightarrow> 'a altrep \<times> 'a R_session \<Rightarrow> bool \<Rightarrow> pointer \<times> 'a altrep \<times> 'a R_session" where
  "Dataptr na s writeable =
     (case s of (alt, r) \<Rightarrow>
        if \<not> IsMaterialized alt \<and> num_chunks (data1 alt) = 1 \<and> null_count_ca (data1 alt) = 0
        then (ChunkValues 0, alt, r)
        else (case Materialize na s of (p, s') \<Rightarrow> (VectorData p, s')))"

text \<open>\<^verbatim>\<open>Elt\<close>: the value at position \<open>i\<close>, read from the source through the resolver.
  \<open>None\<close> is the null dereference of \<open>array'\<close> when no chunk holds \<open>i\<close>.\<close>

definition Elt :: "'a \<Rightarrow> 'a altrep \<Rightarrow> nat \<Rightarrow> 'a option" where
  "Elt na alt i =
     (let resolve = ArrayResolve (data1 alt) i;
          j = index' resolve
      in case array' resolve of
           None \<Rightarrow> None
         | Some array \<Rightarrow> Some (if IsNull array j then na else GetValues array j))"

section \<open>The factor class: \<^verbatim>\<open>AltrepFactor\<close>\<close>

text \<open>R integers are 32-bit words read as signed; \<^verbatim>\<open>NA_INTEGER\<close> is \<^verbatim>\<open>INT_MIN\<close>. The
  indices of a dictionary array are kept as the integers they denote, whatever the width
  of the index type.\<close>

definition NA_INTEGER :: "32 word" where
  "NA_INTEGER = word_of_int (- 2147483648)"

text \<open>What \<^verbatim>\<open>MakeAltrepVector\<close> and the \<^verbatim>\<open>Make\<close> functions return: \<^verbatim>\<open>R_NilValue\<close> or an
  ALTREP object of one of the five classes.\<close>

datatype 'a sexp =
  R_NilValue
  | array_dbl_vector "'a altrep"
  | array_int_vector "'a altrep"
  | array_string_vector "'a altrep"
  | array_large_string_vector "'a altrep"
  | array_factor "'a altrep_factor"

text \<open>Modelled from the spec: \<^verbatim>\<open>DictionaryChunkArrayNeedUnification\<close> is defined
  elsewhere in the R package: "inspect whether all chunks share byte-identical
  dictionaries", against the dictionary of the first chunk.\<close>

definition DictionaryChunkArrayNeedUnification :: "'a chunked_array \<Rightarrow> bool" where
  "DictionaryChunkArrayNeedUnification chunked_array =
     (case chunks chunked_array of
        [] \<Rightarrow> False
      | arr_first # others \<Rightarrow> list_ex (\<lambda>arr. dictionary arr \<noteq> dictionary arr_first) others)"

text \<open>
  Modelled from the spec: \<^verbatim>\<open>arrow::DictionaryUnifier\<close>, "build a unified dictionary by
  merging all chunks' dictionaries (duplicate labels collapse to one unified index), and
  build one per-chunk transpose table mapping each chunk's local index to the unified
  index". The unifier's memo table is the list of the labels seen so far, in the order
  they were first seen; \<open>Unify\<close> gives the transpose buffer of one dictionary and the new
  memo table, and \<^verbatim>\<open>GetResult\<close> is the memo table at the end.
\<close>

fun memo_index :: "string list \<Rightarrow> string \<Rightarrow> nat option" where
  "memo_index [] v = None"
| "memo_index (x # xs) v = (if x = v then Some 0 else map_option Suc (memo_index xs v))"

definition GetOrInsert :: "string list \<Rightarrow> string \<Rightarrow> nat \<times> string list" where
  "GetOrInsert memo v =
     (case memo_index memo v of Some k \<Rightarrow> (k, memo) | None \<Rightarrow> (length memo, memo @ [v]))"

fun Unify :: "string list \<Rightarrow> string list \<Rightarrow> 32 word list \<times> string list" where
  "Unify [] memo = ([], memo)"
| "Unify (v # vs) memo =
     (let (k, memo1) = GetOrInsert memo v;
          (ts, memo2) = Unify vs memo1
      in (of_nat k # ts, memo2))"

text \<open>The loop of \<^verbatim>\<open>AltrepFactor::Make\<close> that unifies the dictionary of every chunk in
  turn, filling \<^verbatim>\<open>arrays_transpose\<close>.\<close>

fun Unify_chunks :: "'a array list \<Rightarrow> string list \<Rightarrow> 32 word list list \<times> string list" where
  "Unify_chunks [] memo = ([], memo)"
| "Unify_chunks (chunk # rest) memo =
     (let (t, memo1) = Unify (dictionary chunk) memo;
          (ts, memo2) = Unify_chunks rest memo1
      in (t # ts, memo2))"

text \<open>\<^verbatim>\<open>AltrepFactor::Make\<close>. \<open>None\<close> is the read of \<^verbatim>\<open>chunk(0)\<close> of a chunked array that
  has no chunk. The levels are the labels of the dictionary chosen
  (\<^verbatim>\<open>Array__as_vector(dictionary)\<close>).\<close>

definition AltrepFactor_Make :: "'a chunked_array \<Rightarrow> 'a sexp option" where
  "AltrepFactor_Make chunked_array =
     (case chunks chunked_array of
        [] \<Rightarrow> None
      | chunk0 # others \<Rightarrow>
          if dict_type chunk0 \<noteq> STRING then Some R_NilValue
          else
            (let need_unification = DictionaryChunkArrayNeedUnification chunked_array;
                 (dict, pointer_arrays_transpose) =
                   (if need_unification
                    then (let (arrays_transpose, unified) = Unify_chunks (chunks chunked_array) []
                          in (unified, Some arrays_transpose))
                    else (dictionary chunk0, None))
             in Some (array_factor
                  \<lparr>data1 = chunked_array, data2 = None,
                   arrays_transpose = pointer_arrays_transpose,
                   levels = dict,
                   class_attr = (if ordered (ca_type chunked_array)
                                 then classes_ordered else classes_factor)\<rparr>)))"

definition WasUnified :: "'a altrep_factor \<Rightarrow> bool" where
  "WasUnified alt = (arrays_transpose alt \<noteq> None)"

text \<open>\<^verbatim>\<open>AltrepFactor::Elt\<close>. The two switches on the index type are kept: every integer
  type reads the index, sends it through the chunk's transpose buffer when the object
  was unified, and adds one in 32-bit arithmetic; any other type falls through to
  \<^verbatim>\<open>NA_INTEGER\<close>. \<open>None\<close> is the null dereference when no chunk holds \<open>i\<close>.\<close>

definition Elt_factor :: "int altrep_factor \<Rightarrow> 32 word R_session \<Rightarrow> nat \<Rightarrow> 32 word option" where
  "Elt_factor alt r i =
     (case Representation alt of
        Some p \<Rightarrow> Some (heap r ! p ! i)
      | None \<Rightarrow>
          (let resolve = ArrayResolve (data1 alt) i;
               j = index' resolve
           in case array' resolve of
                None \<Rightarrow> None
              | Some array \<Rightarrow>
                  if \<not> IsNull array j then
                    (let idx = GetValues array j in
                     case arrays_transpose alt of
                       Some arrays \<Rightarrow>
                         (let transpose_data = arrays ! position' resolve in
                          case index_type (arr_type array) of
                            UINT8 \<Rightarrow> Some (transpose_data ! nat idx + 1)
                          | INT8 \<Rightarrow> Some (transpose_data ! nat idx + 1)
                          | UINT16 \<Rightarrow> Some (transpose_data ! nat idx + 1)
                          | INT16 \<Rightarrow> Some (transpose_data ! nat idx + 1)
                          | INT32 \<Rightarrow> Some (transpose_data ! nat idx + 1)
                          | UINT32 \<Rightarrow> Some (transpose_data ! nat idx + 1)
                          | INT64 \<Rightarrow> Some (transpose_data ! nat idx + 1)
                          | UINT64 \<Rightarrow> Some (transpose_data ! nat idx + 1)
                          | _ \<Rightarrow> Some NA_INTEGER)
                     | None \<Rightarrow>
                         (case index_type (arr_type array) of
                            UINT8 \<Rightarrow> Some (word_of_int (idx + 1))
                          | INT8 \<Rightarrow> Some (word_of_int (idx + 1))
                          | UINT16 \<Rightarrow> Some (word_of_int (idx + 1))
                          | INT16 \<Rightarrow> Some (word_of_int (idx + 1))
                          | INT32 \<Rightarrow> Some (word_of_int (idx + 1))
                          | UINT32 \<Rightarrow> Some (word_of_int (idx + 1))
                          | INT64 \<Rightarrow> Some (word_of_int (idx + 1))
                          | UINT64 \<Rightarrow> Some (word_of_int (idx + 1))
                          | _ \<Rightarrow> Some NA_INTEGER))
                  else Some NA_INTEGER))"

text \<open>\<^verbatim>\<open>GetRegionTranspose\<close>: the visit of one chunk of the slice, a transposed index plus
  one for a valid slot and \<^verbatim>\<open>NA_INTEGER\<close> for a null one. The transpose functions take
  an \<^verbatim>\<open>int\<close>, so the index is first converted to 32 bits.\<close>

definition GetRegionTranspose :: "(32 word \<Rightarrow> 32 word) \<Rightarrow> int array \<Rightarrow> 32 word list" where
  "GetRegionTranspose transpose_fn array =
     map (\<lambda>j. if IsNull array j then NA_INTEGER
              else transpose_fn (word_of_int (GetValues array j)) + 1)
       [0..<arr_length array]"

text \<open>\<^verbatim>\<open>GetRegionDispatch\<close>: the switch generated by
  \<^verbatim>\<open>ARROW_GENERATE_FOR_ALL_INTEGER_TYPES\<close>; for any other index type nothing is written
  (\<open>None\<close>).\<close>

definition GetRegionDispatch ::
  "int array \<Rightarrow> (32 word \<Rightarrow> 32 word) \<Rightarrow> 32 word list option" where
  "GetRegionDispatch array transpose_fn =
     (case index_type (arr_type array) of
        UINT8 \<Rightarrow> Some (GetRegionTranspose transpose_fn array)
      | INT8 \<Rightarrow> Some (GetRegionTranspose transpose_fn array)
      | UINT16 \<Rightarrow> Some (GetRegionTranspose transpose_fn array)
      | INT16 \<Rightarrow> Some (GetRegionTranspose transpose_fn array)
      | UINT32 \<Rightarrow> Some (GetRegionTranspose transpose_fn array)
      | INT32 \<Rightarrow> Some (GetRegionTranspose transpose_fn array)
      | UINT64 \<Rightarrow> Some (GetRegionTranspose transpose_fn array)
      | INT64 \<Rightarrow> Some (GetRegionTranspose transpose_fn array)
      | _ \<Rightarrow> None)"

definition write_dispatch ::
  "int array \<Rightarrow> (32 word \<Rightarrow> 32 word) \<Rightarrow> nat \<Rightarrow> 32 word list \<Rightarrow> 32 word list" where
  "write_dispatch array transpose_fn out buf =
     (case GetRegionDispatch array transpose_fn of None \<Rightarrow> buf | Some xs \<Rightarrow> write_buf buf out xs)"

text \<open>The search of \<^verbatim>\<open>AltrepFactor::Get_region\<close> for the first chunk of the chunked
  array that is present in the slice: \<open>j\<close> counts chunks, \<open>k\<close> the slots before them.\<close>

fun first_chunk :: "'a array list \<Rightarrow> nat \<Rightarrow> nat \<Rightarrow> nat \<Rightarrow> nat" where
  "first_chunk [] start j k = j"
| "first_chunk (chunk # rest) start j k =
     (if k + arr_length chunk > start then j
      else first_chunk rest start (j + 1) (k + arr_length chunk))"

text \<open>The two loops over the chunks of the slice: with the transpose buffer of chunk \<open>j\<close>,
  \<open>j\<close> advancing with the chunks, and with the identity.\<close>

fun Get_region_transposed ::
  "32 word list list \<Rightarrow> nat \<Rightarrow> int array list \<Rightarrow> nat \<Rightarrow> 32 word list \<Rightarrow> 32 word list" where
  "Get_region_transposed arrays j [] out buf = buf"
| "Get_region_transposed arrays j (array # rest) out buf =
     (let transpose_data = arrays ! j;
          transpose_fn = (\<lambda>x. transpose_data ! nat (sint x))
      in Get_region_transposed arrays (j + 1) rest (out + arr_length array)
           (write_dispatch array transpose_fn out buf))"

fun Get_region_identity :: "int array list \<Rightarrow> nat \<Rightarrow> 32 word list \<Rightarrow> 32 word list" where
  "Get_region_identity [] out buf = buf"
| "Get_region_identity (array # rest) out buf =
     Get_region_identity rest (out + arr_length array) (write_dispatch array (\<lambda>x. x) out buf)"

definition Get_region_factor ::
  "int altrep_factor \<Rightarrow> 32 word R_session \<Rightarrow> nat \<Rightarrow> nat \<Rightarrow> 32 word list
     \<Rightarrow> nat \<times> 32 word list" where
  "Get_region_factor alt r start n buf =
     (case Representation alt of
        Some p \<Rightarrow> Standard_Get_region (heap r ! p) start n buf
      | None \<Rightarrow>
          (let chunked_array = data1 alt;
               chunked_array_size = length_ca chunked_array
           in if start \<ge> chunked_array_size then (0, buf)
              else
                (let slice = Slice chunked_array start n
                 in case arrays_transpose alt of
                      Some arrays \<Rightarrow>
                        (let j = first_chunk (chunks chunked_array) start 0 0
                         in (length_ca slice,
                             Get_region_transposed arrays j (chunks slice) 0 buf))
                    | None \<Rightarrow> (length_ca slice, Get_region_identity (chunks slice) 0 buf))))"

definition Materialize_factor ::
  "int altrep_factor \<times> 32 word R_session \<Rightarrow> nat \<times> int altrep_factor \<times> 32 word R_session" where
  "Materialize_factor s =
     (case s of (alt, r) \<Rightarrow>
        (case Representation alt of
           None \<Rightarrow>
             (let sz = Length alt;
                  (copy, r1) = Rf_allocVector sz r;
                  (ncopy, buf) = Get_region_factor alt r1 0 sz (heap r1 ! copy);
                  r2 = set_vector copy buf r1
              in (copy, SetRepresentation alt copy, r2))
         | Some p \<Rightarrow> (p, alt, r)))"

definition Dataptr_or_null_factor :: "'a altrep_factor \<Rightarrow> pointer" where
  "Dataptr_or_null_factor alt =
     (case Representation alt of Some p \<Rightarrow> VectorData p | None \<Rightarrow> nullptr)"

definition Dataptr_factor ::
  "int altrep_factor \<times> 32 word R_session \<Rightarrow> bool
     \<Rightarrow> pointer \<times> int altrep_factor \<times> 32 word R_session" where
  "Dataptr_factor s writeable = (case Materialize_factor s of (p, s') \<Rightarrow> (VectorData p, s'))"

section \<open>The string class: \<^verbatim>\<open>AltrepVectorString\<close>\<close>

text \<open>An R string (\<^verbatim>\<open>CHARSXP\<close>) is \<^verbatim>\<open>NA_STRING\<close> or the bytes given to
  \<^verbatim>\<open>Rf_mkCharLenCE\<close>. A method that may call \<^verbatim>\<open>Rf_error\<close> ends in an outcome: it
  returns a value, or it raises an R error with the message R shows; both leave a state
  behind. \<open>Crash\<close> is a step whose behaviour C++ leaves undefined: the null
  dereference when no chunk holds the index, and a format directive that has no
  argument.\<close>

datatype charsxp = NA_STRING | CHARSXP string

datatype ('x, 's) outcome = Return 'x 's | R_error string 's | Crash

text \<open>
  \<^verbatim>\<open>Rf_error(const char* format, ...)\<close> of the R API formats its first argument as
  \<^verbatim>\<open>vsnprintf\<close> does, and raises the error with the result. Both calls in the source
  pass the format alone. \<open>vsnprintf\<close> is the formatting of a format string without
  arguments: an ordinary character is copied, the directive of two percent signs writes
  one percent sign, and any other directive asks for an argument that was not passed,
  which is undefined (\<open>None\<close>). R's bound on the length of a message is left out.
\<close>

fun vsnprintf :: "string \<Rightarrow> string option" where
  "vsnprintf [] = Some []"
| "vsnprintf [c] = (if c = CHR ''%'' then None else Some [c])"
| "vsnprintf (c # c' # cs) =
     (if c = CHR ''%''
      then (if c' = CHR ''%'' then map_option ((#) CHR ''%'') (vsnprintf cs) else None)
      else map_option ((#) c) (vsnprintf (c' # cs)))"

definition Rf_error :: "string \<Rightarrow> 's \<Rightarrow> ('x, 's) outcome" where
  "Rf_error format s = (case vsnprintf format of Some msg \<Rightarrow> R_error msg s | None \<Rightarrow> Crash)"

text \<open>\<^verbatim>\<open>struct RStringViewer\<close>: the members the conversions read and write. The array is
  passed to \<open>Convert\<close> (\<^verbatim>\<open>SetArray\<close>), the view is local to it.\<close>

record RStringViewer =
  strip_out_nuls :: bool
  nul_was_stripped :: bool
  stripped_string :: string

definition RStringViewer_init :: "(string \<rightharpoonup> bool) \<Rightarrow> RStringViewer" where
  "RStringViewer_init opts =
     \<lparr>strip_out_nuls = GetBoolOption opts ''arrow.skip_nul'' False,
      nul_was_stripped = False,
      stripped_string = []\<rparr>"

text \<open>One round of the loop of \<^verbatim>\<open>ConvertStripNul\<close> over the bytes of the view; the state
  is \<^verbatim>\<open>stripped_string_\<close>, \<^verbatim>\<open>stripped_len\<close> and \<^verbatim>\<open>nul_count\<close>.\<close>

definition strip_step :: "string \<Rightarrow> nat \<Rightarrow> string \<times> nat \<times> nat \<Rightarrow> string \<times> nat \<times> nat" where
  "strip_step view i st =
     (case st of (stripped, stripped_len, nul_count) \<Rightarrow>
        if view ! i = CHR 0x00
        then (if nul_count + 1 = 1
              then (view, i, nul_count + 1)
              else (stripped, stripped_len, nul_count + 1))
        else if nul_count > 0
             then (stripped[stripped_len := view ! i], stripped_len + 1, nul_count)
             else (stripped, stripped_len, nul_count))"

definition ConvertStripNul :: "RStringViewer \<Rightarrow> string \<Rightarrow> charsxp \<times> RStringViewer" where
  "ConvertStripNul v view =
     (let (stripped, stripped_len, nul_count) =
            fold (strip_step view) [0..<length view] (stripped_string v, 0, 0)
      in (CHARSXP (take stripped_len stripped),
          v\<lparr>nul_was_stripped := True, stripped_string := stripped\<rparr>))"

text \<open>The text \<^verbatim>\<open>Error()\<close> builds in \<^verbatim>\<open>stripped_string_\<close>: the view between single
  quotes (character \<open>0x27\<close>), each nul byte written as a backslash (\<open>0x5C\<close>) and a
  zero. \<^verbatim>\<open>Error()\<close> hands it to \<^verbatim>\<open>Rf_error\<close> as the format.\<close>

definition Error_text :: "string \<Rightarrow> string" where
  "Error_text view =
     ''embedded nul in string: '' @ [CHR 0x27]
     @ concat (map (\<lambda>c. if c \<noteq> CHR 0x00 then [c] else [CHR 0x5C, CHR ''0'']) view)
     @ [CHR 0x27]
     @ ''; to strip nuls when converting from Arrow to R, set options(arrow.skip_nul = TRUE)''"

text \<open>\<^verbatim>\<open>Convert(i)\<close>: the \<open>i\<close>-th string of the array as an R string. \<open>Inl\<close> is the
  call of \<^verbatim>\<open>Rf_error\<close> in \<^verbatim>\<open>Error()\<close>, with the format it passes; the callers of
  \<open>Convert\<close> end in the outcome of that call.\<close>

definition Convert :: "RStringViewer \<Rightarrow> string array \<Rightarrow> nat \<Rightarrow> string + charsxp \<times> RStringViewer" where
  "Convert v array i =
     (if IsNull array i then Inr (NA_STRING, v)
      else
        (let view = GetValues array i;
             no_nul = (CHR 0x00 \<notin> set view)
         in if no_nul then Inr (CHARSXP view, v)
            else if strip_out_nuls v then Inr (ConvertStripNul v view)
            else Inl (Error_text view)))"

definition strip_warning :: string where
  "strip_warning =
     ''Stripping '' @ [CHR 0x27, CHR 0x5C, CHR ''0'', CHR 0x27] @ '' (nul) from character vector''"

definition cpp11_warning :: "string \<Rightarrow> 'v R_session \<Rightarrow> 'v R_session" where
  "cpp11_warning msg r = r\<lparr>warnings := warnings r @ [msg]\<rparr>"

definition SET_STRING_ELT :: "nat \<Rightarrow> nat \<Rightarrow> charsxp \<Rightarrow> charsxp R_session \<Rightarrow> charsxp R_session" where
  "SET_STRING_ELT x i v r = r\<lparr>heap := (heap r)[x := (heap r ! x)[i := v]]\<rparr>"

definition Elt_string ::
  "string altrep \<times> charsxp R_session \<Rightarrow> nat
     \<Rightarrow> (charsxp, string altrep \<times> charsxp R_session) outcome" where
  "Elt_string s i =
     (case s of (alt, r) \<Rightarrow>
        (case Representation alt of
           Some p \<Rightarrow> Return (heap r ! p ! i) s
         | None \<Rightarrow>
             (let resolve = ArrayResolve (data1 alt) i;
                  j = index' resolve
              in case array' resolve of
                   None \<Rightarrow> Crash
                 | Some array \<Rightarrow>
                     (let r_string_viewer = RStringViewer_init (options r)
                      in case Convert r_string_viewer array j of
                           Inl format \<Rightarrow> Rf_error format s
                         | Inr (x, v) \<Rightarrow>
                             Return x
                               (alt, if nul_was_stripped v then cpp11_warning strip_warning r
                                     else r)))))"

text \<open>The loops of \<^verbatim>\<open>Materialize\<close>: over the slots \<open>j\<close> of one chunk, \<open>i\<close> being the
  position in \<open>data2\<close>, and over the chunks. An error stops them, with the session as it
  is at that point.\<close>

fun convert_chunk ::
  "RStringViewer \<Rightarrow> string array \<Rightarrow> nat list \<Rightarrow> nat \<Rightarrow> nat \<Rightarrow> charsxp R_session
     \<Rightarrow> string \<times> charsxp R_session + RStringViewer \<times> nat \<times> charsxp R_session" where
  "convert_chunk v array [] i x r = Inr (v, i, r)"
| "convert_chunk v array (j # js) i x r =
     (case Convert v array j of
        Inl format \<Rightarrow> Inl (format, r)
      | Inr (c, v') \<Rightarrow> convert_chunk v' array js (i + 1) x (SET_STRING_ELT x i c r))"

fun convert_chunks ::
  "RStringViewer \<Rightarrow> string array list \<Rightarrow> nat \<Rightarrow> nat \<Rightarrow> charsxp R_session
     \<Rightarrow> string \<times> charsxp R_session + RStringViewer \<times> charsxp R_session" where
  "convert_chunks v [] i x r = Inr (v, r)"
| "convert_chunks v (array # rest) i x r =
     (case convert_chunk v array [0..<arr_length array] i x r of
        Inl e \<Rightarrow> Inl e
      | Inr (v', i', r') \<Rightarrow> convert_chunks v' rest i' x r')"

definition Materialize_string ::
  "string altrep \<times> charsxp R_session
     \<Rightarrow> (nat, string altrep \<times> charsxp R_session) outcome" where
  "Materialize_string s =
     (case s of (alt, r) \<Rightarrow>
        (case Representation alt of
           Some p \<Rightarrow> Return p s
         | None \<Rightarrow>
             (let chunked_array = data1 alt;
                  (x, r1) = Rf_allocVector (length_ca chunked_array) r;
                  r_string_viewer = RStringViewer_init (options r1)
              in case convert_chunks r_string_viewer (chunks chunked_array) 0 x r1 of
                   Inl (format, r2) \<Rightarrow> Rf_error format (alt, r2)
                 | Inr (v, r2) \<Rightarrow>
                     (let r3 = (if nul_was_stripped v then cpp11_warning strip_warning r2 else r2)
                      in Return x (SetRepresentation alt x, r3)))))"

definition Dataptr_or_null_string :: "string altrep \<Rightarrow> pointer" where
  "Dataptr_or_null_string alt =
     (case Representation alt of Some p \<Rightarrow> VectorData p | None \<Rightarrow> nullptr)"

definition Dataptr_string ::
  "string altrep \<times> charsxp R_session \<Rightarrow> bool
     \<Rightarrow> (pointer, string altrep \<times> charsxp R_session) outcome" where
  "Dataptr_string s writeable =
     (case Materialize_string s of
        Return p s' \<Rightarrow> Return (VectorData p) s'
      | R_error msg s' \<Rightarrow> R_error msg s'
      | Crash \<Rightarrow> Crash)"

definition Set_elt ::
  "string altrep \<times> charsxp R_session \<Rightarrow> nat \<Rightarrow> charsxp
     \<Rightarrow> (unit, string altrep \<times> charsxp R_session) outcome" where
  "Set_elt s i v =
     Rf_error ''ALTSTRING objects of type <arrow::array_string_vector> are immutable'' s"

section \<open>Sum, Min and Max of the primitive class\<close>

text \<open>
  R doubles are not modelled bit by bit: \<open>'d\<close> is the type of doubles, and a record
  gives the constants and operations the methods use (\<^verbatim>\<open>R_PosInf\<close>, \<^verbatim>\<open>R_NegInf\<close>,
  \<^verbatim>\<open>NA_REAL\<close>, the conversion \<^verbatim>\<open>static_cast<double>\<close> of a 64-bit integer, and zero,
  addition, minimum and maximum for the kernels). A result is an R scalar. Where the
  value of a converted sum matters, the doubles are \<open>double_value\<close> and the conversion
  is \<open>static_cast_double\<close>, both given below.
\<close>

record 'd doubles =
  R_PosInf :: 'd
  R_NegInf :: 'd
  NA_REAL :: 'd
  double_of_int64 :: "int \<Rightarrow> 'd"
  d_zero :: 'd
  d_plus :: "'d \<Rightarrow> 'd \<Rightarrow> 'd"
  d_min :: "'d \<Rightarrow> 'd \<Rightarrow> 'd"
  d_max :: "'d \<Rightarrow> 'd \<Rightarrow> 'd"

datatype 'd scalar = ScalarReal 'd | ScalarInteger "32 word"

definition INT32_MIN :: int where
  "INT32_MIN = - 2147483648"

definition INT32_MAX :: int where
  "INT32_MAX = 2147483647"

text \<open>
  \<^verbatim>\<open>static_cast<double>\<close> of a 64-bit integer is the conversion of IEEE 754 binary64
  under the default rounding, to nearest with ties to even. A double has 53 significant
  bits: an integer of \<open>bit_length\<close> at most 53 is kept as it is, and a longer one
  loses its \<open>e\<close> lowest bits, the significand going up by one when the lost bits are
  more than half a unit, or exactly half and the significand is odd. No 64-bit integer
  is out of the range of the doubles. The result is a double whose value is an integer:
  \<open>double_value\<close> gives the doubles by their values as far as the conversion and the
  examples need them, an integer, the two infinities and \<^verbatim>\<open>NA_REAL\<close>.
\<close>

datatype double_value = Fin int | PosInf | NegInf | NaReal

fun bit_length :: "nat \<Rightarrow> nat" where
  "bit_length n = (if n = 0 then 0 else Suc (bit_length (n div 2)))"

declare bit_length.simps [simp del]

definition round_binary64 :: "int \<Rightarrow> int" where
  "round_binary64 v =
     (let m = nat \<bar>v\<bar>;
          e = bit_length m - 53;
          q = m div 2 ^ e;
          lost = m mod 2 ^ e;
          q' = (if 2 ^ e < 2 * lost \<or> (2 * lost = 2 ^ e \<and> odd q) then q + 1 else q)
      in sgn v * int (q' * 2 ^ e))"

definition static_cast_double :: "int \<Rightarrow> double_value" where
  "static_cast_double v = Fin (round_binary64 v)"

text \<open>The values of the slots that are not null, in order.\<close>

definition valid_values :: "'a chunked_array \<Rightarrow> 'a list" where
  "valid_values ca =
     concat (map (\<lambda>a. map (GetValues a) (filter (\<lambda>j. \<not> IsNull a j) [0..<arr_length a]))
                 (chunks ca))"

text \<open>
  Modelled from the spec: the aggregate kernels \<^verbatim>\<open>"sum"\<close> and \<^verbatim>\<open>"min_max"\<close> of the
  columnar library, called with \<^verbatim>\<open>min_count = 0\<close>; the methods call them only when nulls
  are skipped or there is none. The sum of an int32 array is an Int64 scalar: "the
  kernel's accumulator uses a wider intermediate type than the element type"; "sum of
  nothing is 0 under skip-nulls". The minimum and maximum of nothing are the identities
  of the reduction.
\<close>

definition sum_kernel_int32 :: "32 word chunked_array \<Rightarrow> 64 word" where
  "sum_kernel_int32 ca = fold (\<lambda>v acc. acc + word_of_int (sint v)) (valid_values ca) 0"

definition min_max_kernel_int32 :: "32 word chunked_array \<Rightarrow> 32 word \<times> 32 word" where
  "min_max_kernel_int32 ca =
     (fold (\<lambda>v acc. if sint v < sint acc then v else acc) (valid_values ca) (word_of_int INT32_MAX),
      fold (\<lambda>v acc. if sint acc < sint v then v else acc) (valid_values ca) (word_of_int INT32_MIN))"

definition sum_kernel_double :: "'d doubles \<Rightarrow> 'd chunked_array \<Rightarrow> 'd" where
  "sum_kernel_double d ca = fold (\<lambda>v acc. d_plus d acc v) (valid_values ca) (d_zero d)"

definition min_max_kernel_double :: "'d doubles \<Rightarrow> 'd chunked_array \<Rightarrow> 'd \<times> 'd" where
  "min_max_kernel_double d ca =
     (fold (\<lambda>v acc. d_min d acc v) (valid_values ca) (R_PosInf d),
      fold (\<lambda>v acc. d_max d acc v) (valid_values ca) (R_NegInf d))"

text \<open>\<^verbatim>\<open>MinMax<Min>\<close>, \<^verbatim>\<open>Min\<close>, \<^verbatim>\<open>Max\<close> and \<^verbatim>\<open>Sum\<close>, instantiated for INTSXP and for
  REALSXP. \<open>narm\<close> is \<^verbatim>\<open>narm == TRUE\<close>, and \<open>is_min\<close> the template argument
  \<^verbatim>\<open>Min\<close>.\<close>

definition MinMax_INTSXP :: "'d doubles \<Rightarrow> bool \<Rightarrow> (32 word, 'z) altrep_scheme \<Rightarrow> bool \<Rightarrow> 'd scalar" where
  "MinMax_INTSXP d is_min alt narm =
     (let chunked_array = data1 alt;
          na_rm = narm;
          n = length_ca chunked_array;
          null_count = null_count_ca chunked_array
      in if (na_rm \<or> n = 0) \<and> null_count = n
         then ScalarReal (if is_min then R_PosInf d else R_NegInf d)
         else if \<not> na_rm \<and> null_count > 0
         then ScalarInteger NA_INTEGER
         else (let minmax = min_max_kernel_int32 chunked_array
               in ScalarInteger (if is_min then fst minmax else snd minmax)))"

definition MinMax_REALSXP :: "'d doubles \<Rightarrow> bool \<Rightarrow> ('d, 'z) altrep_scheme \<Rightarrow> bool \<Rightarrow> 'd scalar" where
  "MinMax_REALSXP d is_min alt narm =
     (let chunked_array = data1 alt;
          na_rm = narm;
          n = length_ca chunked_array;
          null_count = null_count_ca chunked_array
      in if (na_rm \<or> n = 0) \<and> null_count = n
         then ScalarReal (if is_min then R_PosInf d else R_NegInf d)
         else if \<not> na_rm \<and> null_count > 0
         then ScalarReal (NA_REAL d)
         else (let minmax = min_max_kernel_double d chunked_array
               in ScalarReal (if is_min then fst minmax else snd minmax)))"

definition Sum_INTSXP :: "'d doubles \<Rightarrow> (32 word, 'z) altrep_scheme \<Rightarrow> bool \<Rightarrow> 'd scalar" where
  "Sum_INTSXP d alt narm =
     (let chunked_array = data1 alt;
          na_rm = narm;
          null_count = null_count_ca chunked_array
      in if \<not> na_rm \<and> null_count > 0
         then ScalarInteger NA_INTEGER
         else (let val = sint (sum_kernel_int32 chunked_array)
               in if val \<le> INT32_MIN \<or> val > INT32_MAX
                  then ScalarReal (double_of_int64 d val)
                  else ScalarInteger (word_of_int val)))"

definition Sum_REALSXP :: "'d doubles \<Rightarrow> ('d, 'z) altrep_scheme \<Rightarrow> bool \<Rightarrow> 'd scalar" where
  "Sum_REALSXP d alt narm =
     (let chunked_array = data1 alt;
          na_rm = narm;
          null_count = null_count_ca chunked_array
      in if \<not> na_rm \<and> null_count > 0
         then ScalarReal (NA_REAL d)
         else ScalarReal (sum_kernel_double d chunked_array))"

section \<open>The methods R may call, and the state they leave\<close>

text \<open>
  The methods registered for the numeric and factor classes
  (\<^verbatim>\<open>InitAltrepMethods\<close>, \<^verbatim>\<open>InitAltvecMethods\<close>, \<^verbatim>\<open>InitAltRealMethods\<close>,
  \<^verbatim>\<open>InitAltIntegerMethods\<close>) and for the string classes (\<^verbatim>\<open>InitAltStringClass\<close>).
  \<^verbatim>\<open>Unserialize\<close> takes no ALTREP object and returns its argument, so it is not a call
  on an object. \<open>exec\<close> is the state a call leaves: only \<^verbatim>\<open>Materialize\<close>, and the
  methods that call it, write to the object or allocate; the other methods read
  \<open>data1\<close> and \<open>data2\<close> and write at most to the caller's buffer.
\<close>

datatype call =
  Call_Length | Call_Inspect | Call_Duplicate | Call_Serialized_state | Call_Coerce
  | Call_Dataptr bool | Call_Dataptr_or_null
  | Call_No_NA | Call_Is_sorted | Call_Sum bool | Call_Min bool | Call_Max bool
  | Call_Elt nat | Call_Get_region nat nat

datatype string_call =
  String_Length | String_Inspect | String_Duplicate | String_Serialized_state | String_Coerce
  | String_Dataptr bool | String_Dataptr_or_null
  | String_Elt nat | String_Set_elt nat charsxp | String_No_NA | String_Is_sorted

text \<open>\<^verbatim>\<open>Rf_duplicate\<close> of a standard vector: a copy at a new address.\<close>

definition Rf_duplicate :: "nat \<Rightarrow> 'v R_session \<Rightarrow> nat \<times> 'v R_session" where
  "Rf_duplicate p r = (length (heap r), r\<lparr>heap := heap r @ [heap r ! p]\<rparr>)"

text \<open>\<^verbatim>\<open>AltrepVectorBase::Duplicate\<close> for the primitive class.\<close>

definition Duplicate ::
  "'a \<Rightarrow> 'a altrep \<times> 'a R_session \<Rightarrow> nat \<times> 'a altrep \<times> 'a R_session" where
  "Duplicate na s =
     (case Materialize na s of (p, alt', r') \<Rightarrow>
        (case Rf_duplicate p r' of (q, r'') \<Rightarrow> (q, alt', r'')))"

fun exec :: "'a \<Rightarrow> call \<Rightarrow> 'a altrep \<times> 'a R_session \<Rightarrow> 'a altrep \<times> 'a R_session" where
  "exec na Call_Duplicate s = snd (Duplicate na s)"
| "exec na Call_Serialized_state s = snd (Materialize na s)"
| "exec na Call_Coerce s = snd (Materialize na s)"
| "exec na (Call_Dataptr writeable) s = snd (Dataptr na s writeable)"
| "exec na m s = s"

text \<open>\<^verbatim>\<open>AltrepFactor::Duplicate\<close> materializes and takes \<^verbatim>\<open>Rf_lazy_duplicate\<close> of the
  representation, which allocates nothing.\<close>

fun exec_factor ::
  "call \<Rightarrow> int altrep_factor \<times> 32 word R_session \<Rightarrow> int altrep_factor \<times> 32 word R_session" where
  "exec_factor Call_Duplicate s = snd (Materialize_factor s)"
| "exec_factor Call_Serialized_state s = snd (Materialize_factor s)"
| "exec_factor Call_Coerce s = snd (Materialize_factor s)"
| "exec_factor (Call_Dataptr writeable) s = snd (Dataptr_factor s writeable)"
| "exec_factor m s = s"

text \<open>The state an outcome leaves; after a crash there is none, and the state before
  the call is kept.\<close>

fun state_after :: "'s \<Rightarrow> ('x, 's) outcome \<Rightarrow> 's" where
  "state_after s (Return x s') = s'"
| "state_after s (R_error msg s') = s'"
| "state_after s Crash = s"

definition Duplicate_string ::
  "string altrep \<times> charsxp R_session
     \<Rightarrow> (nat, string altrep \<times> charsxp R_session) outcome" where
  "Duplicate_string s =
     (case Materialize_string s of
        Return p (alt', r') \<Rightarrow> (case Rf_duplicate p r' of (q, r'') \<Rightarrow> Return q (alt', r''))
      | R_error msg s' \<Rightarrow> R_error msg s'
      | Crash \<Rightarrow> Crash)"

fun exec_string ::
  "string_call \<Rightarrow> string altrep \<times> charsxp R_session \<Rightarrow> string altrep \<times> charsxp R_session" where
  "exec_string String_Duplicate s = state_after s (Duplicate_string s)"
| "exec_string String_Serialized_state s = state_after s (Materialize_string s)"
| "exec_string String_Coerce s = state_after s (Materialize_string s)"
| "exec_string (String_Dataptr writeable) s = state_after s (Dataptr_string s writeable)"
| "exec_string (String_Elt i) s = state_after s (Elt_string s i)"
| "exec_string (String_Set_elt i v) s = state_after s (Set_elt s i v)"
| "exec_string m s = s"

section \<open>Dispatch: \<^verbatim>\<open>MakeAltrepVector\<close>\<close>

text \<open>\<open>None\<close> is passed on from \<open>AltrepFactor_Make\<close>.\<close>

definition MakeAltrepVector :: "(string \<rightharpoonup> bool) \<Rightarrow> 'a chunked_array \<Rightarrow> 'a sexp option" where
  "MakeAltrepVector opts chunked_array =
     (if GetBoolOption opts ''arrow.use_altrep'' True \<and> length_ca chunked_array > 0
      then (case id_of (ca_type chunked_array) of
              DOUBLE \<Rightarrow> Some (array_dbl_vector (Make chunked_array))
            | INT32 \<Rightarrow> Some (array_int_vector (Make chunked_array))
            | STRING \<Rightarrow> Some (array_string_vector (Make chunked_array))
            | LARGE_STRING \<Rightarrow> Some (array_large_string_vector (Make chunked_array))
            | DICTIONARY \<Rightarrow> AltrepFactor_Make chunked_array
            | _ \<Rightarrow> Some R_NilValue)
      else Some R_NilValue)"

section \<open>The logical contents of the source\<close>

text \<open>What the source holds, slot by slot: the sentinel for a null slot, the raw value
  otherwise. These are the values "direct access through the source and the position
  resolver" gives.\<close>

definition array_elems :: "'a \<Rightarrow> 'a array \<Rightarrow> 'a list" where
  "array_elems na a = map (\<lambda>j. if IsNull a j then na else GetValues a j) [0..<arr_length a]"

definition all_elems :: "'a \<Rightarrow> 'a chunked_array \<Rightarrow> 'a list" where
  "all_elems na ca = concat (map (array_elems na) (chunks ca))"

text \<open>Example inputs. An int32 chunked array of two chunks: the first is a window of two
  slots, at offset 1, whose second slot is null; the second has one slot and no bitmap.
  Its contents are 20, NA, 40.\<close>

definition example_chunk1 :: "32 word array" where
  "example_chunk1 =
     \<lparr>arr_type = DataType INT32, arr_length = 2, arr_offset = 1,
      null_bitmap = Some [True, True, False], arr_values = [10, 20, 30],
      dict_type = OTHER_TYPE 0, dictionary = []\<rparr>"

definition example_chunk2 :: "32 word array" where
  "example_chunk2 =
     \<lparr>arr_type = DataType INT32, arr_length = 1, arr_offset = 0,
      null_bitmap = None, arr_values = [40],
      dict_type = OTHER_TYPE 0, dictionary = []\<rparr>"

definition example_int32 :: "32 word chunked_array" where
  "example_int32 = \<lparr>chunks = [example_chunk1, example_chunk2], ca_type = DataType INT32\<rparr>"

definition example_empty :: "32 word chunked_array" where
  "example_empty =
     \<lparr>chunks = [example_chunk1\<lparr>arr_length := 0\<rparr>], ca_type = DataType INT32\<rparr>"

definition example_session :: "32 word R_session" where
  "example_session = \<lparr>heap = [], garbage = (\<lambda>k. 0), options = Map.empty, warnings = []\<rparr>"

text \<open>
  The code of a slot of a dictionary chunk, as the source and the transpose buffers give
  it: the sentinel for a null slot, else the index, sent through the transpose buffer of
  the chunk at ordinal \<open>pos\<close> when the object was unified, plus one. \<open>factor_elems\<close>
  lists the codes of all the slots of the source.
\<close>

definition factor_code :: "32 word list list option \<Rightarrow> nat \<Rightarrow> int array \<Rightarrow> nat \<Rightarrow> 32 word" where
  "factor_code arrays pos a j =
     (if IsNull a j then NA_INTEGER
      else (case arrays of
              Some ts \<Rightarrow> ts ! pos ! nat (GetValues a j) + 1
            | None \<Rightarrow> word_of_int (GetValues a j) + 1))"

definition chunk_codes :: "32 word list list option \<Rightarrow> nat \<Rightarrow> int array \<Rightarrow> 32 word list" where
  "chunk_codes arrays pos a = map (factor_code arrays pos a) [0..<arr_length a]"

fun codes_from :: "32 word list list option \<Rightarrow> nat \<Rightarrow> int array list \<Rightarrow> 32 word list" where
  "codes_from arrays pos [] = []"
| "codes_from arrays pos (a # as) = chunk_codes arrays pos a @ codes_from arrays (Suc pos) as"

definition factor_elems :: "int altrep_factor \<Rightarrow> 32 word list" where
  "factor_elems alt = codes_from (arrays_transpose alt) 0 (chunks (data1 alt))"

text \<open>
  Well-formed dictionary chunks: the index type is one of the eight integer types (arrow
  admits no other index type), and an index that is not null is not negative and fits a
  32-bit \<^verbatim>\<open>int\<close>, as an index into a dictionary does.
\<close>

definition integer_index :: "'a array \<Rightarrow> bool" where
  "integer_index a =
     (index_type (arr_type a) \<in> set [UINT8, INT8, UINT16, INT16, UINT32, INT32, UINT64, INT64])"

definition valid_index :: "int array \<Rightarrow> nat \<Rightarrow> bool" where
  "valid_index a j = (IsNull a j \<or> (0 \<le> GetValues a j \<and> GetValues a j < 2147483648))"

definition wf_dictionary_array :: "int array \<Rightarrow> bool" where
  "wf_dictionary_array a = (integer_index a \<and> list_all (valid_index a) [0..<arr_length a])"

definition wf_factor :: "int altrep_factor \<Rightarrow> bool" where
  "wf_factor alt = list_all wf_dictionary_array (chunks (data1 alt))"

text \<open>
  The cache and the source agree: when data2 is set, it is the address of an allocated
  vector that holds the contents of the source. \<open>Make\<close> establishes this (data2 is
  \<^verbatim>\<open>R_NilValue\<close>) and every call keeps it (shown below).
\<close>

definition cache_ok :: "'a \<Rightarrow> 'a altrep \<times> 'a R_session \<Rightarrow> bool" where
  "cache_ok na s =
     (case s of (alt, r) \<Rightarrow>
        (case Representation alt of
           None \<Rightarrow> True
         | Some p \<Rightarrow> p < length (heap r) \<and> heap r ! p = all_elems na (data1 alt)))"

definition cache_ok_factor :: "int altrep_factor \<times> 32 word R_session \<Rightarrow> bool" where
  "cache_ok_factor s =
     (case s of (alt, r) \<Rightarrow>
        (case Representation alt of
           None \<Rightarrow> True
         | Some p \<Rightarrow> p < length (heap r) \<and> heap r ! p = factor_elems alt))"

text \<open>Example input: a dictionary array of two chunks whose dictionaries list the same
  two labels in different orders; the second slot of the second chunk is null. Unified,
  the labels are a, b, and the codes are 1, 2, 2, NA.\<close>

definition example_dict1 :: "int array" where
  "example_dict1 =
     \<lparr>arr_type = DictionaryType INT8 STRING False, arr_length = 2, arr_offset = 0,
      null_bitmap = None, arr_values = [0, 1],
      dict_type = STRING, dictionary = [''a'', ''b'']\<rparr>"

definition example_dict2 :: "int array" where
  "example_dict2 =
     \<lparr>arr_type = DictionaryType INT8 STRING False, arr_length = 2, arr_offset = 0,
      null_bitmap = Some [True, False], arr_values = [0, 0],
      dict_type = STRING, dictionary = [''b'', ''a'']\<rparr>"

definition example_dictionary :: "int chunked_array" where
  "example_dictionary =
     \<lparr>chunks = [example_dict1, example_dict2], ca_type = DictionaryType INT8 STRING False\<rparr>"

definition example_factor :: "int altrep_factor" where
  "example_factor =
     \<lparr>data1 = example_dictionary, data2 = None,
      arrays_transpose = Some [[0, 1], [1, 0]], levels = [''a'', ''b''],
      class_attr = classes_factor\<rparr>"

text \<open>Example input: a string array of one chunk, whose second string has an embedded
  nul byte; and the states the three example objects are in once materialized (the
  strings with \<^verbatim>\<open>arrow.skip_nul\<close> set).\<close>

definition example_string_chunk :: "string array" where
  "example_string_chunk =
     \<lparr>arr_type = DataType STRING, arr_length = 2, arr_offset = 0,
      null_bitmap = None, arr_values = [''ab'', [CHR ''c'', CHR 0x00, CHR ''d'']],
      dict_type = OTHER_TYPE 0, dictionary = []\<rparr>"

definition example_strings :: "string chunked_array" where
  "example_strings = \<lparr>chunks = [example_string_chunk], ca_type = DataType STRING\<rparr>"

definition example_string_session :: "(string \<rightharpoonup> bool) \<Rightarrow> charsxp R_session" where
  "example_string_session opts =
     \<lparr>heap = [], garbage = (\<lambda>k. NA_STRING), options = opts, warnings = []\<rparr>"

definition example_strings_materialized :: "string altrep \<times> charsxp R_session" where
  "example_strings_materialized =
     ((Make example_strings)\<lparr>data2 := Some 0\<rparr>,
      \<lparr>heap = [[CHARSXP ''ab'', CHARSXP ''cd'']], garbage = (\<lambda>k. NA_STRING),
       options = [''arrow.skip_nul'' \<mapsto> True], warnings = [strip_warning]\<rparr>)"

definition example_int32_materialized :: "32 word altrep \<times> 32 word R_session" where
  "example_int32_materialized =
     ((Make example_int32)\<lparr>data2 := Some 0\<rparr>, example_session\<lparr>heap := [[20, NA_INTEGER, 40]]\<rparr>)"

definition example_factor_materialized :: "int altrep_factor \<times> 32 word R_session" where
  "example_factor_materialized =
     (example_factor\<lparr>data2 := Some 0\<rparr>, example_session\<lparr>heap := [[1, 2, 2, NA_INTEGER]]\<rparr>)"

text \<open>
  Example inputs for the aggregates. An interpretation of the doubles by their values,
  with \<^verbatim>\<open>static_cast<double>\<close> as the conversion and an addition, a minimum and a
  maximum that are exact on the integers; the arrays 1, NA, 3 and NA, NA of the spec, as
  int32 and as double arrays; two int32 arrays whose sums are \<^verbatim>\<open>INT32_MIN\<close> and
  \<open>4294967294\<close>.
\<close>

fun example_plus :: "double_value \<Rightarrow> double_value \<Rightarrow> double_value" where
  "example_plus (Fin a) (Fin b) = Fin (a + b)"
| "example_plus a b = NaReal"

fun example_min :: "double_value \<Rightarrow> double_value \<Rightarrow> double_value" where
  "example_min (Fin a) (Fin b) = Fin (min a b)"
| "example_min PosInf b = b"
| "example_min a b = a"

fun example_max :: "double_value \<Rightarrow> double_value \<Rightarrow> double_value" where
  "example_max (Fin a) (Fin b) = Fin (max a b)"
| "example_max NegInf b = b"
| "example_max a b = a"

definition example_doubles :: "double_value doubles" where
  "example_doubles =
     \<lparr>R_PosInf = PosInf, R_NegInf = NegInf, NA_REAL = NaReal,
      double_of_int64 = static_cast_double,
      d_zero = Fin 0, d_plus = example_plus, d_min = example_min, d_max = example_max\<rparr>"

definition example_1_na_3 :: "32 word chunked_array" where
  "example_1_na_3 =
     \<lparr>chunks = [\<lparr>arr_type = DataType INT32, arr_length = 3, arr_offset = 0,
                 null_bitmap = Some [True, False, True], arr_values = [1, 0, 3],
                 dict_type = OTHER_TYPE 0, dictionary = []\<rparr>],
      ca_type = DataType INT32\<rparr>"

definition example_all_null :: "32 word chunked_array" where
  "example_all_null =
     \<lparr>chunks = [\<lparr>arr_type = DataType INT32, arr_length = 2, arr_offset = 0,
                 null_bitmap = Some [False, False], arr_values = [0, 0],
                 dict_type = OTHER_TYPE 0, dictionary = []\<rparr>],
      ca_type = DataType INT32\<rparr>"

definition example_int_min :: "32 word chunked_array" where
  "example_int_min =
     \<lparr>chunks = [\<lparr>arr_type = DataType INT32, arr_length = 2, arr_offset = 0,
                 null_bitmap = None, arr_values = [word_of_int (- 2147483647), word_of_int (- 1)],
                 dict_type = OTHER_TYPE 0, dictionary = []\<rparr>],
      ca_type = DataType INT32\<rparr>"

definition example_overflow :: "32 word chunked_array" where
  "example_overflow =
     \<lparr>chunks = [\<lparr>arr_type = DataType INT32, arr_length = 2, arr_offset = 0,
                 null_bitmap = None, arr_values = [2147483647, 2147483647],
                 dict_type = OTHER_TYPE 0, dictionary = []\<rparr>],
      ca_type = DataType INT32\<rparr>"

text \<open>
  Two long int32 arrays, each of one chunk that holds one value \<open>n\<close> times and no null:
  \<open>4194305\<close> times \<^verbatim>\<open>INT32_MAX\<close>, whose sum \<open>9007201398030335\<close> is odd and above
  \<open>2^53\<close>, and \<open>2^33\<close> times \<^verbatim>\<open>INT32_MIN\<close>, whose sum is \<open>- 2^64\<close>.
\<close>

definition constant_chunk :: "nat \<Rightarrow> 32 word \<Rightarrow> 32 word array" where
  "constant_chunk n v =
     \<lparr>arr_type = DataType INT32, arr_length = n, arr_offset = 0,
      null_bitmap = None, arr_values = replicate n v,
      dict_type = OTHER_TYPE 0, dictionary = []\<rparr>"

definition example_rounded :: "32 word chunked_array" where
  "example_rounded =
     \<lparr>chunks = [constant_chunk 4194305 2147483647], ca_type = DataType INT32\<rparr>"

definition example_wrapped :: "32 word chunked_array" where
  "example_wrapped =
     \<lparr>chunks = [constant_chunk 8589934592 (word_of_int (- 2147483648))],
      ca_type = DataType INT32\<rparr>"

definition example_dbl_1_na_3 :: "double_value chunked_array" where
  "example_dbl_1_na_3 =
     \<lparr>chunks = [\<lparr>arr_type = DataType DOUBLE, arr_length = 3, arr_offset = 0,
                 null_bitmap = Some [True, False, True], arr_values = [Fin 1, Fin 0, Fin 3],
                 dict_type = OTHER_TYPE 0, dictionary = []\<rparr>],
      ca_type = DataType DOUBLE\<rparr>"

definition example_dbl_all_null :: "double_value chunked_array" where
  "example_dbl_all_null =
     \<lparr>chunks = [\<lparr>arr_type = DataType DOUBLE, arr_length = 2, arr_offset = 0,
                 null_bitmap = Some [False, False], arr_values = [Fin 0, Fin 0],
                 dict_type = OTHER_TYPE 0, dictionary = []\<rparr>],
      ca_type = DataType DOUBLE\<rparr>"

text \<open>The exact mathematical sum of the values of an int32 chunked array that are not
  null.\<close>

definition exact_sum :: "32 word chunked_array \<Rightarrow> int" where
  "exact_sum ca = sum_list (map sint (valid_values ca))"

text \<open>
  The contents of a string array as R strings once embedded nuls are stripped:
  \<open>strip_nuls\<close> removes the nul bytes, \<open>has_nul\<close> says that a slot is not null and
  its bytes contain a nul, \<open>first_nul\<close> is the first such string in the order of the
  full pass, and \<open>skip_nul\<close> is the option \<^verbatim>\<open>arrow.skip_nul\<close> as a string viewer
  reads it. \<open>strip_inv\<close> is the invariant of the loop of \<^verbatim>\<open>ConvertStripNul\<close> after
  \<open>n\<close> bytes.
\<close>

definition strip_nuls :: "string \<Rightarrow> string" where
  "strip_nuls view = filter (\<lambda>c. c \<noteq> CHR 0x00) view"

definition strip_inv :: "string \<Rightarrow> string \<Rightarrow> nat \<Rightarrow> string \<times> nat \<times> nat \<Rightarrow> bool" where
  "strip_inv view s0 n st =
     (case st of (stripped, stripped_len, nul_count) \<Rightarrow>
        if CHR 0x00 \<in> set (take n view)
        then nul_count > 0 \<and> length stripped = length view \<and> stripped_len < n
             \<and> take stripped_len stripped = strip_nuls (take n view)
        else nul_count = 0 \<and> stripped = s0 \<and> stripped_len = 0)"

definition has_nul :: "string array \<Rightarrow> nat \<Rightarrow> bool" where
  "has_nul a j = (\<not> IsNull a j \<and> CHR 0x00 \<in> set (GetValues a j))"

definition string_elem :: "string array \<Rightarrow> nat \<Rightarrow> charsxp" where
  "string_elem a j = (if IsNull a j then NA_STRING else CHARSXP (strip_nuls (GetValues a j)))"

definition string_elems :: "string chunked_array \<Rightarrow> charsxp list" where
  "string_elems ca = concat (map (\<lambda>a. map (string_elem a) [0..<arr_length a]) (chunks ca))"

definition any_nul :: "string chunked_array \<Rightarrow> bool" where
  "any_nul ca = list_ex (\<lambda>a. list_ex (has_nul a) [0..<arr_length a]) (chunks ca)"

fun first_nul :: "string array list \<Rightarrow> string option" where
  "first_nul [] = None"
| "first_nul (a # rest) =
     (case find (has_nul a) [0..<arr_length a] of
        Some j \<Rightarrow> Some (GetValues a j)
      | None \<Rightarrow> first_nul rest)"

definition skip_nul :: "charsxp R_session \<Rightarrow> bool" where
  "skip_nul r = GetBoolOption (options r) ''arrow.skip_nul'' False"

text \<open>The string with an embedded nul of the example array, and the session after a
  failed materialization of that array: one vector was allocated and partly filled, and
  nothing refers to it.\<close>

definition example_nul_string :: string where
  "example_nul_string = [CHR ''c'', CHR 0x00, CHR ''d'']"


text \<open>Two string arrays of one element with an embedded nul: one holds two percent
  signs before the nul, the other a percent sign and the letter s.\<close>

definition example_percent_string :: string where
  "example_percent_string = ''50%%'' @ [CHR 0x00]"

definition example_percent_strings :: "string chunked_array" where
  "example_percent_strings =
     \<lparr>chunks = [\<lparr>arr_type = DataType STRING, arr_length = 1, arr_offset = 0,
                 null_bitmap = None, arr_values = [example_percent_string],
                 dict_type = OTHER_TYPE 0, dictionary = []\<rparr>],
      ca_type = DataType STRING\<rparr>"

definition example_directive_strings :: "string chunked_array" where
  "example_directive_strings =
     \<lparr>chunks = [\<lparr>arr_type = DataType STRING, arr_length = 1, arr_offset = 0,
                 null_bitmap = None, arr_values = [''100%s'' @ [CHR 0x00]],
                 dict_type = OTHER_TYPE 0, dictionary = []\<rparr>],
      ca_type = DataType STRING\<rparr>"

text \<open>
  An element of a dictionary chunked array that has a label: the resolver finds its
  chunk, the index type is an integer type, the slot is not null and its index points
  into the dictionary of the chunk. \<open>label_of\<close> is that label, the underlying string
  value of the element.
\<close>

definition valid_element :: "int chunked_array \<Rightarrow> nat \<Rightarrow> bool" where
  "valid_element ca i =
     (case array' (ArrayResolve ca i) of
        None \<Rightarrow> False
      | Some c \<Rightarrow>
          (let j = index' (ArrayResolve ca i)
           in integer_index c \<and> \<not> IsNull c j \<and> 0 \<le> GetValues c j
              \<and> nat (GetValues c j) < length (dictionary c)))"

definition label_of :: "int chunked_array \<Rightarrow> nat \<Rightarrow> string" where
  "label_of ca i =
     (case array' (ArrayResolve ca i) of
        None \<Rightarrow> []
      | Some c \<Rightarrow> dictionary c ! nat (GetValues c (index' (ArrayResolve ca i))))"

text \<open>Example input: two chunks that share one dictionary, which lists the label a
  twice; the element of the first chunk has index 0, that of the second has index 1.\<close>

definition example_dup1 :: "int array" where
  "example_dup1 =
     \<lparr>arr_type = DictionaryType INT8 STRING False, arr_length = 1, arr_offset = 0,
      null_bitmap = None, arr_values = [0],
      dict_type = STRING, dictionary = [''a'', ''a'']\<rparr>"

definition example_dup2 :: "int array" where
  "example_dup2 =
     \<lparr>arr_type = DictionaryType INT8 STRING False, arr_length = 1, arr_offset = 0,
      null_bitmap = None, arr_values = [1],
      dict_type = STRING, dictionary = [''a'', ''a'']\<rparr>"

definition example_duplicates :: "int chunked_array" where
  "example_duplicates =
     \<lparr>chunks = [example_dup1, example_dup2], ca_type = DictionaryType INT8 STRING False\<rparr>"

definition example_dup_factor :: "int altrep_factor" where
  "example_dup_factor =
     \<lparr>data1 = example_duplicates, data2 = None,
      arrays_transpose = None, levels = [''a'', ''a''],
      class_attr = classes_factor\<rparr>"

section \<open>Properties of the source and of the slices\<close>

text \<open>What a call of \<open>Rf_error\<close> can be: never a return, and an error only with the
  message the format gives and the state of the call.\<close>

lemma Rf_error_not_Return [simp]: "Rf_error format s \<noteq> Return x s'"
  by (simp add: Rf_error_def split: option.split)

lemma Return_not_Rf_error [simp]: "Return x s' \<noteq> Rf_error format s"
  by (simp add: Rf_error_def split: option.split)


lemma state_after_Rf_error [simp]: "state_after s (Rf_error format s) = s"
  by (simp add: Rf_error_def split: option.split)


lemma length_array_elems [simp]: "length (array_elems na a) = arr_length a"
  by (simp add: array_elems_def)

lemma length_concat_elems:
  "length (concat (map (array_elems na) cs)) = sum_list (map arr_length cs)"
  by (induction cs) simp_all

lemma length_all_elems: "length (all_elems na ca) = length_ca ca"
  by (simp add: all_elems_def length_ca_def length_concat_elems)

lemma null_count_zero: "null_count a = 0 \<Longrightarrow> j < arr_length a \<Longrightarrow> \<not> IsNull a j"
  by (auto simp: null_count_def filter_empty_conv)

lemma IsNull_Array_Slice [simp]: "IsNull (Array_Slice a off len) j = IsNull a (off + j)"
  by (simp add: IsNull_def Array_Slice_def add.assoc split: option.split)

lemma GetValues_Array_Slice [simp]: "GetValues (Array_Slice a off len) j = GetValues a (off + j)"
  by (simp add: GetValues_def Array_Slice_def add.assoc)

lemma arr_length_Array_Slice [simp]:
  "arr_length (Array_Slice a off len) = min (arr_length a - off) len"
  by (simp add: Array_Slice_def)

lemma array_elems_Array_Slice:
  "array_elems na (Array_Slice a off len) = take len (drop off (array_elems na a))"
  by (auto simp: array_elems_def take_map drop_map min_def list_eq_iff_nth_eq)

lemma Slice_take_elems:
  "cs = [] \<or> off \<le> arr_length (hd cs) \<Longrightarrow>
   concat (map (array_elems na) (Slice_take cs off len))
     = take len (drop off (concat (map (array_elems na) cs)))"
proof (induction cs arbitrary: off len)
  case Nil
  then show ?case by simp
next
  case (Cons c cs)
  then have off: "off \<le> arr_length c" by simp
  show ?case
  proof (cases "len > 0")
    case False
    then show ?thesis by simp
  next
    case True
    have "concat (map (array_elems na) (Slice_take cs 0 (len - (arr_length c - off))))
        = take (len - (arr_length c - off)) (drop 0 (concat (map (array_elems na) cs)))"
      by (rule Cons.IH) simp
    with True off show ?thesis
      by (simp add: array_elems_Array_Slice)
  qed
qed

lemma Slice_skip_elems:
  "Slice_skip cs off = (rest, off') \<Longrightarrow>
   drop off (concat (map (array_elems na) cs)) = drop off' (concat (map (array_elems na) rest))
   \<and> (rest = [] \<or> off' < arr_length (hd rest))"
  by (induction cs off rule: Slice_skip.induct) (auto split: if_splits)

text \<open>A slice holds the slots from \<open>off\<close> on, at most \<open>len\<close> of them.\<close>

lemma Slice_elems:
  "all_elems na (Slice ca off len) = take len (drop off (all_elems na ca))"
proof -
  obtain rest off' where sk: "Slice_skip (chunks ca) off = (rest, off')"
    by (cases "Slice_skip (chunks ca) off")
  note sk_elems = Slice_skip_elems [OF sk, of na]
  show ?thesis
  proof (cases "num_chunks ca > 0 \<and> (off = length_ca ca \<or> len = 0)")
    case True
    then have "take len (drop off (all_elems na ca)) = []"
      using length_all_elems [of na ca] by auto
    with True sk show ?thesis
      by (simp add: Slice_def all_elems_def array_elems_Array_Slice)
  next
    case False
    have "rest = [] \<or> off' \<le> arr_length (hd rest)"
      using sk_elems by auto
    then have "concat (map (array_elems na) (Slice_take rest off' len))
        = take len (drop off' (concat (map (array_elems na) rest)))"
      by (rule Slice_take_elems)
    with False sk sk_elems show ?thesis
      by (auto simp: Slice_def all_elems_def)
  qed
qed

lemma length_ca_Slice: "length_ca (Slice ca off len) = min len (length_ca ca - off)"
proof -
  have "length_ca (Slice ca off len) = length (all_elems undefined (Slice ca off len))"
    by (simp add: length_all_elems)
  also have "\<dots> = min len (length_ca ca - off)"
    by (simp add: Slice_elems length_all_elems min.commute)
  finally show ?thesis .
qed

text \<open>The resolver finds, for an index in range, the slot that holds that element.\<close>

lemma ArrayResolve_loop_elems:
  "i < sum_list (map arr_length cs) \<Longrightarrow>
   \<exists>a. array' (ArrayResolve_loop cs i k) = Some a
     \<and> index' (ArrayResolve_loop cs i k) < arr_length a
     \<and> array_elems na a ! index' (ArrayResolve_loop cs i k) = concat (map (array_elems na) cs) ! i"
proof (induction cs arbitrary: i k)
  case Nil
  then show ?case by simp
next
  case (Cons c cs)
  show ?case
  proof (cases "i < arr_length c")
    case True
    then show ?thesis by (simp add: nth_append)
  next
    case False
    with Cons.prems have "i - arr_length c < sum_list (map arr_length cs)" by simp
    from Cons.IH [OF this, of "k + 1"] False show ?thesis
      by (simp add: nth_append)
  qed
qed

section \<open>Properties of the primitive class\<close>

lemma copy_chunk_elems: "copy_chunk na a = array_elems na a"
  by (auto simp: copy_chunk_def array_elems_def Let_def null_count_zero)

lemma length_copy_chunk [simp]: "length (copy_chunk na a) = arr_length a"
  by (simp add: copy_chunk_elems)

lemma Get_region_loop_elems:
  "out + sum_list (map arr_length cs) \<le> length buf \<Longrightarrow>
   Get_region_loop na cs out buf =
     take out buf @ concat (map (array_elems na) cs) @ drop (out + sum_list (map arr_length cs)) buf"
proof (induction cs arbitrary: out buf)
  case Nil
  then show ?case by simp
next
  case (Cons c cs)
  have len: "length (write_buf buf out (copy_chunk na c)) = length buf"
    using Cons.prems by (simp add: write_buf_def)
  have "Get_region_loop na (c # cs) out buf =
        Get_region_loop na cs (out + arr_length c) (write_buf buf out (copy_chunk na c))"
    by simp
  also have "\<dots> = take (out + arr_length c) (write_buf buf out (copy_chunk na c))
       @ concat (map (array_elems na) cs)
       @ drop (out + arr_length c + sum_list (map arr_length cs)) (write_buf buf out (copy_chunk na c))"
    using Cons.prems len by (intro Cons.IH) simp
  also have "take (out + arr_length c) (write_buf buf out (copy_chunk na c)) = take out buf @ array_elems na c"
    using Cons.prems by (simp add: write_buf_def copy_chunk_elems)
  also have "drop (out + arr_length c + sum_list (map arr_length cs)) (write_buf buf out (copy_chunk na c))
      = drop (out + arr_length c + sum_list (map arr_length cs)) buf"
    using Cons.prems by (simp add: write_buf_def ac_simps)
  finally show ?case by (simp add: add.assoc)
qed

lemma Elt_all_elems:
  assumes "i < Length alt"
  shows "Elt na alt i = Some (all_elems na (data1 alt) ! i)"
proof -
  from assms have "i < sum_list (map arr_length (chunks (data1 alt)))"
    by (simp add: Length_def length_ca_def)
  from ArrayResolve_loop_elems [OF this, of 0 na]
  obtain a where a: "array' (ArrayResolve (data1 alt) i) = Some a"
      "index' (ArrayResolve (data1 alt) i) < arr_length a"
      "array_elems na a ! index' (ArrayResolve (data1 alt) i) = all_elems na (data1 alt) ! i"
    by (auto simp: ArrayResolve_def all_elems_def)
  from a(2) have "array_elems na a ! index' (ArrayResolve (data1 alt) i) =
      (if IsNull a (index' (ArrayResolve (data1 alt) i)) then na
        else GetValues a (index' (ArrayResolve (data1 alt) i)))"
    unfolding array_elems_def by (subst nth_map) simp_all
  with a(3) have "(if IsNull a (index' (ArrayResolve (data1 alt) i)) then na
        else GetValues a (index' (ArrayResolve (data1 alt) i))) = all_elems na (data1 alt) ! i"
    by simp
  with a(1) show ?thesis
    by (simp add: Elt_def Let_def)
qed

lemma Get_region_unmaterialized:
  assumes "Representation alt = None" and "n \<le> length buf"
  shows "Get_region na alt r i n buf =
     (min n (Length alt - i),
      take n (drop i (all_elems na (data1 alt))) @ drop (min n (Length alt - i)) buf)"
proof -
  let ?sl = "Slice (data1 alt) i n"
  have len: "sum_list (map arr_length (chunks ?sl)) = min n (Length alt - i)"
    using length_ca_Slice [of "data1 alt" i n] by (simp add: length_ca_def Length_def)
  then have "0 + sum_list (map arr_length (chunks ?sl)) \<le> length buf"
    using assms(2) by simp
  from Get_region_loop_elems [OF this, of na]
  have "Get_region_loop na (chunks ?sl) 0 buf
      = all_elems na ?sl @ drop (min n (Length alt - i)) buf"
    by (simp add: len all_elems_def)
  with assms(1) len show ?thesis
    by (simp add: Get_region_def Let_def Slice_elems length_ca_def)
qed

lemma Materialize_unmaterialized:
  assumes "Representation alt = None"
  shows "Materialize na (alt, r) =
     (length (heap r), alt\<lparr>data2 := Some (length (heap r))\<rparr>,
      r\<lparr>heap := heap r @ [all_elems na (data1 alt)]\<rparr>)"
proof -
  let ?r1 = "r\<lparr>heap := heap r @ [map (garbage r) [0..<Length alt]]\<rparr>"
  have "Get_region na alt ?r1 0 (Length alt) (map (garbage r) [0..<Length alt])
      = (Length alt, all_elems na (data1 alt))"
    using assms length_all_elems [of na "data1 alt"]
    by (subst Get_region_unmaterialized) (simp_all add: Length_def)
  with assms show ?thesis
    by (simp add: Materialize_def Rf_allocVector_def set_vector_def SetRepresentation_def Let_def)
qed

section \<open>Properties of the pointer requests\<close>

text \<open>
  C7. For the primitive class, \<open>Dataptr_or_null\<close> returns a pointer into the values of
  a chunk of the source exactly when the object is not materialized, the source has one
  chunk and the source has no null, and the pointer is then to chunk 0; when the object
  is materialized it returns the data of the cached vector; it returns the null pointer
  exactly in the remaining configurations. The call leaves the object and the session as
  they are, so it never materializes.
\<close>

theorem Dataptr_or_null_cases:
  "((\<exists>k. Dataptr_or_null alt = ChunkValues k) =
      (\<not> IsMaterialized alt \<and> num_chunks (data1 alt) = 1 \<and> null_count_ca (data1 alt) = 0))
   \<and> ((Dataptr_or_null alt = ChunkValues 0) =
      (\<not> IsMaterialized alt \<and> num_chunks (data1 alt) = 1 \<and> null_count_ca (data1 alt) = 0))
   \<and> Dataptr_or_null (SetRepresentation alt x) = VectorData x
   \<and> ((\<exists>x. Dataptr_or_null alt = VectorData x) = IsMaterialized alt)
   \<and> ((Dataptr_or_null alt = nullptr) =
      (\<not> IsMaterialized alt \<and> \<not> (num_chunks (data1 alt) = 1 \<and> null_count_ca (data1 alt) = 0)))
   \<and> exec na Call_Dataptr_or_null (alt, r) = (alt, r)"
  by (auto simp: Dataptr_or_null_def IsMaterialized_def Representation_def SetRepresentation_def
      Let_def split: option.splits)

section \<open>Properties of the dispatch\<close>

text \<open>
  C10. \<open>MakeAltrepVector\<close> declines every chunked array of length zero: it returns
  \<^verbatim>\<open>R_NilValue\<close> whatever the element type and whatever the options, also when
  \<^verbatim>\<open>arrow.use_altrep\<close> is set to TRUE.
\<close>

theorem MakeAltrepVector_length_zero:
  "length_ca chunked_array = 0 \<Longrightarrow> MakeAltrepVector opts chunked_array = Some R_NilValue"
  by (simp add: MakeAltrepVector_def)

theorem MakeAltrepVector_length_zero_witness:
  "length_ca example_empty = 0
   \<and> MakeAltrepVector [''arrow.use_altrep'' \<mapsto> True] example_empty = Some R_NilValue"
proof -
  have h: "length_ca example_empty = 0"
    by (simp add: length_ca_def example_empty_def)
  from h MakeAltrepVector_length_zero [OF h, of "[''arrow.use_altrep'' \<mapsto> True]"]
  show ?thesis by simp
qed

section \<open>Properties of the factor class: region copies\<close>

lemma length_chunk_codes [simp]: "length (chunk_codes arrays pos a) = arr_length a"
  by (simp add: chunk_codes_def)

lemma length_codes_from: "length (codes_from arrays pos cs) = sum_list (map arr_length cs)"
  by (induction cs arbitrary: pos) simp_all

lemma arr_type_Array_Slice [simp]: "arr_type (Array_Slice a off len) = arr_type a"
  by (simp add: Array_Slice_def)

lemma chunk_codes_Array_Slice:
  "chunk_codes arrays pos (Array_Slice a off len) = take len (drop off (chunk_codes arrays pos a))"
  by (auto simp: chunk_codes_def factor_code_def take_map drop_map min_def list_eq_iff_nth_eq
      split: option.splits)

lemma valid_index_Array_Slice [simp]:
  "valid_index (Array_Slice a off len) j = valid_index a (off + j)"
  by (simp add: valid_index_def)

lemma integer_index_Array_Slice [simp]: "integer_index (Array_Slice a off len) = integer_index a"
  by (simp add: integer_index_def)

lemma wf_Array_Slice: "wf_dictionary_array a \<Longrightarrow> wf_dictionary_array (Array_Slice a off len)"
proof -
  assume wf: "wf_dictionary_array a"
  have "valid_index a (off + j)" if "j < min (arr_length a - off) len" for j
  proof -
    from that have "j < arr_length a - off" by simp
    then have "off + j < arr_length a" by arith
    with wf show ?thesis by (simp add: wf_dictionary_array_def list_all_iff)
  qed
  with wf show ?thesis
    by (simp add: wf_dictionary_array_def list_all_iff)
qed

lemma Slice_take_codes:
  "cs = [] \<or> off \<le> arr_length (hd cs) \<Longrightarrow>
   codes_from arrays pos (Slice_take cs off len) = take len (drop off (codes_from arrays pos cs))"
proof (induction cs arbitrary: off len pos)
  case Nil
  then show ?case by simp
next
  case (Cons c cs)
  then have off: "off \<le> arr_length c" by simp
  show ?case
  proof (cases "len > 0")
    case False
    then show ?thesis by simp
  next
    case True
    have "codes_from arrays (Suc pos) (Slice_take cs 0 (len - (arr_length c - off)))
        = take (len - (arr_length c - off)) (drop 0 (codes_from arrays (Suc pos) cs))"
      by (rule Cons.IH) simp
    with True off show ?thesis
      by (simp add: chunk_codes_Array_Slice)
  qed
qed

lemma Slice_take_wf:
  "list_all wf_dictionary_array cs \<Longrightarrow> list_all wf_dictionary_array (Slice_take cs off len)"
  by (induction cs off len rule: Slice_take.induct) (simp_all add: wf_Array_Slice)

text \<open>The search for the first chunk runs in step with the skipping of the slice.\<close>

lemma first_chunk_Slice_skip:
  "k \<le> start \<Longrightarrow> Slice_skip cs (start - k) = (rest, off') \<Longrightarrow>
   drop (start - k) (codes_from arrays j cs)
     = drop off' (codes_from arrays (first_chunk cs start j k) rest)
   \<and> (rest = [] \<or> off' < arr_length (hd rest))
   \<and> set rest \<subseteq> set cs"
proof (induction cs arbitrary: j k)
  case Nil
  then show ?case by simp
next
  case (Cons c cs)
  show ?case
  proof (cases "k + arr_length c > start")
    case True
    with Cons.prems(1) have "\<not> arr_length c \<le> start - k" by arith
    with Cons.prems(2) True show ?thesis by auto
  next
    case False
    then have le: "k + arr_length c \<le> start" by simp
    with Cons.prems have sk: "Slice_skip cs (start - (k + arr_length c)) = (rest, off')"
      by (simp split: if_splits)
    from Cons.IH [OF le sk, of "j + 1"] False Cons.prems(1) le show ?thesis
      by auto
  qed
qed

lemma sint_index:
  "0 \<le> x \<Longrightarrow> x < 2147483648 \<Longrightarrow> nat (sint (word_of_int x :: 32 word)) = nat x"
  by (simp add: sint_sbintrunc' signed_take_bit_int_eq_self)

lemma GetRegionTranspose_transposed:
  assumes "list_all (valid_index a) [0..<arr_length a]"
  shows "GetRegionTranspose (\<lambda>x. arrays ! pos ! nat (sint x)) a = chunk_codes (Some arrays) pos a"
proof -
  have "(if IsNull a j then NA_INTEGER
         else arrays ! pos ! nat (sint (word_of_int (GetValues a j) :: 32 word)) + 1)
        = factor_code (Some arrays) pos a j" if "j < arr_length a" for j
  proof -
    from assms that have "valid_index a j" by (simp add: list_all_iff)
    then show ?thesis
      by (auto simp: valid_index_def factor_code_def sint_index)
  qed
  then show ?thesis
    by (simp add: GetRegionTranspose_def chunk_codes_def)
qed

lemma GetRegionTranspose_identity:
  "GetRegionTranspose (\<lambda>x. x) a = chunk_codes None pos a"
  by (simp add: GetRegionTranspose_def chunk_codes_def factor_code_def)

lemma GetRegionDispatch_integer:
  "integer_index a \<Longrightarrow> GetRegionDispatch a f = Some (GetRegionTranspose f a)"
  by (auto simp: integer_index_def GetRegionDispatch_def)

lemma write_dispatch_transposed:
  "wf_dictionary_array a \<Longrightarrow>
   write_dispatch a (\<lambda>x. arrays ! pos ! nat (sint x)) out buf
     = write_buf buf out (chunk_codes (Some arrays) pos a)"
  by (simp add: write_dispatch_def wf_dictionary_array_def GetRegionDispatch_integer
      GetRegionTranspose_transposed)

lemma write_dispatch_identity:
  "wf_dictionary_array a \<Longrightarrow>
   write_dispatch a (\<lambda>x. x) out buf = write_buf buf out (chunk_codes None pos a)"
  by (simp add: write_dispatch_def wf_dictionary_array_def GetRegionDispatch_integer
      GetRegionTranspose_identity [of a pos])

lemma write_buf_then:
  assumes "out + length xs + m \<le> length buf"
  shows "take (out + length xs) (write_buf buf out xs) = take out buf @ xs"
    and "drop (out + length xs + m) (write_buf buf out xs) = drop (out + length xs + m) buf"
    and "length (write_buf buf out xs) = length buf"
  using assms by (simp_all add: write_buf_def ac_simps)

lemma Get_region_transposed_codes:
  "list_all wf_dictionary_array cs \<Longrightarrow> out + sum_list (map arr_length cs) \<le> length buf \<Longrightarrow>
   Get_region_transposed arrays j cs out buf =
     take out buf @ codes_from (Some arrays) j cs @ drop (out + sum_list (map arr_length cs)) buf"
proof (induction cs arbitrary: j out buf)
  case Nil
  then show ?case by simp
next
  case (Cons c cs)
  let ?xs = "chunk_codes (Some arrays) j c"
  let ?m = "sum_list (map arr_length cs)"
  let ?buf' = "write_buf buf out ?xs"
  from Cons.prems have wfc: "wf_dictionary_array c" and wfs: "list_all wf_dictionary_array cs"
    by simp_all
  from Cons.prems(2) have room: "out + length ?xs + ?m \<le> length buf"
    by (simp add: add.assoc)
  note wb = write_buf_then [OF room]
  have "Get_region_transposed arrays j (c # cs) out buf =
        Get_region_transposed arrays (j + 1) cs (out + arr_length c) ?buf'"
    by (simp add: write_dispatch_transposed [OF wfc])
  also have "\<dots> = take (out + arr_length c) ?buf' @ codes_from (Some arrays) (j + 1) cs
       @ drop (out + arr_length c + ?m) ?buf'"
    using wb(3) room by (intro Cons.IH [OF wfs]) simp
  also have "take (out + arr_length c) ?buf' = take out buf @ ?xs"
    using wb(1) by simp
  also have "drop (out + arr_length c + ?m) ?buf' = drop (out + arr_length c + ?m) buf"
    using wb(2) by simp
  finally show ?case by (simp add: add.assoc)
qed

lemma Get_region_identity_codes:
  "list_all wf_dictionary_array cs \<Longrightarrow> out + sum_list (map arr_length cs) \<le> length buf \<Longrightarrow>
   Get_region_identity cs out buf =
     take out buf @ codes_from None j cs @ drop (out + sum_list (map arr_length cs)) buf"
proof (induction cs arbitrary: j out buf)
  case Nil
  then show ?case by simp
next
  case (Cons c cs)
  let ?xs = "chunk_codes None j c"
  let ?m = "sum_list (map arr_length cs)"
  let ?buf' = "write_buf buf out ?xs"
  from Cons.prems have wfc: "wf_dictionary_array c" and wfs: "list_all wf_dictionary_array cs"
    by simp_all
  from Cons.prems(2) have room: "out + length ?xs + ?m \<le> length buf"
    by (simp add: add.assoc)
  note wb = write_buf_then [OF room]
  have "Get_region_identity (c # cs) out buf =
        Get_region_identity cs (out + arr_length c) ?buf'"
    by (simp add: write_dispatch_identity [OF wfc, of _ _ j])
  also have "\<dots> = take (out + arr_length c) ?buf' @ codes_from None (Suc j) cs
       @ drop (out + arr_length c + ?m) ?buf'"
    using wb(3) room by (intro Cons.IH [OF wfs]) simp
  also have "take (out + arr_length c) ?buf' = take out buf @ ?xs"
    using wb(1) by simp
  also have "drop (out + arr_length c + ?m) ?buf' = drop (out + arr_length c + ?m) buf"
    using wb(2) by simp
  finally show ?case by (simp add: add.assoc)
qed

lemma Slice_codes:
  assumes wf: "list_all wf_dictionary_array (chunks ca)" and start: "start < length_ca ca"
  shows "list_all wf_dictionary_array (chunks (Slice ca start n))
    \<and> codes_from arrays (first_chunk (chunks ca) start 0 0) (chunks (Slice ca start n))
        = take n (drop start (codes_from arrays 0 (chunks ca)))"
proof -
  obtain rest off' where sk: "Slice_skip (chunks ca) start = (rest, off')"
    by (cases "Slice_skip (chunks ca) start")
  from first_chunk_Slice_skip [of 0 start "chunks ca" rest off' arrays 0] sk
  have fc: "drop start (codes_from arrays 0 (chunks ca))
        = drop off' (codes_from arrays (first_chunk (chunks ca) start 0 0) rest)"
    and hd: "rest = [] \<or> off' < arr_length (hd rest)"
    and sub: "set rest \<subseteq> set (chunks ca)"
    by simp_all
  from wf sub have wfr: "list_all wf_dictionary_array rest"
    by (auto simp: list_all_iff)
  from start have ne: "chunks ca \<noteq> []"
    by (auto simp: length_ca_def)
  show ?thesis
  proof (cases "n = 0")
    case True
    let ?c = "chunks ca ! min (num_chunks ca - length rest) (num_chunks ca - 1)"
    from ne have "0 < length (chunks ca)" by simp
    then have "min (num_chunks ca - length rest) (num_chunks ca - 1) < length (chunks ca)"
      unfolding num_chunks_def by arith
    then have "?c \<in> set (chunks ca)"
      by (rule nth_mem)
    with wf have "wf_dictionary_array ?c" by (simp add: list_all_iff)
    then have "wf_dictionary_array (Array_Slice ?c 0 0)" by (rule wf_Array_Slice)
    with True ne sk show ?thesis
      by (simp add: Slice_def num_chunks_def chunk_codes_Array_Slice)
  next
    case False
    from hd have "rest = [] \<or> off' \<le> arr_length (hd rest)" by auto
    from Slice_take_codes [OF this] fc
    have "codes_from arrays (first_chunk (chunks ca) start 0 0) (Slice_take rest off' n)
        = take n (drop start (codes_from arrays 0 (chunks ca)))"
      by simp
    with False start sk Slice_take_wf [OF wfr] show ?thesis
      by (simp add: Slice_def)
  qed
qed

lemma Get_region_factor_unmaterialized:
  assumes none: "Representation alt = None" and wf: "wf_factor alt" and room: "n \<le> length buf"
  shows "Get_region_factor alt r start n buf =
     (min n (Length alt - start),
      take n (drop start (factor_elems alt)) @ drop (min n (Length alt - start)) buf)"
proof (cases "start < Length alt")
  case False
  then have "take n (drop start (factor_elems alt)) = []"
    by (simp add: factor_elems_def length_codes_from Length_def length_ca_def)
  with False none show ?thesis
    by (simp add: Get_region_factor_def Length_def Let_def)
next
  case True
  let ?ca = "data1 alt"
  let ?sl = "Slice ?ca start n"
  let ?j = "first_chunk (chunks ?ca) start 0 0"
  from True have start: "start < length_ca ?ca" by (simp add: Length_def)
  from wf have wfc: "list_all wf_dictionary_array (chunks ?ca)" by (simp add: wf_factor_def)
  note sc = Slice_codes [OF wfc start, of n]
  have len: "sum_list (map arr_length (chunks ?sl)) = min n (Length alt - start)"
    using length_ca_Slice [of ?ca start n] by (simp add: length_ca_def Length_def)
  with room have fits: "0 + sum_list (map arr_length (chunks ?sl)) \<le> length buf" by simp
  show ?thesis
  proof (cases "arrays_transpose alt")
    case None
    from sc [of None] have "codes_from None ?j (chunks ?sl) = take n (drop start (factor_elems alt))"
      by (simp add: factor_elems_def None)
    with Get_region_identity_codes [OF conjunct1 [OF sc] fits, of ?j] len
    have "Get_region_identity (chunks ?sl) 0 buf
        = take n (drop start (factor_elems alt)) @ drop (min n (Length alt - start)) buf"
      by simp
    with none None start len show ?thesis
      by (simp add: Get_region_factor_def Let_def length_ca_def)
  next
    case (Some arrays)
    from sc [of "Some arrays"]
    have "codes_from (Some arrays) ?j (chunks ?sl) = take n (drop start (factor_elems alt))"
      by (simp add: factor_elems_def Some)
    with Get_region_transposed_codes [OF conjunct1 [OF sc] fits, of arrays ?j] len
    have "Get_region_transposed arrays ?j (chunks ?sl) 0 buf
        = take n (drop start (factor_elems alt)) @ drop (min n (Length alt - start)) buf"
      by simp
    with none Some start len show ?thesis
      by (simp add: Get_region_factor_def Let_def length_ca_def)
  qed
qed

lemma less_min_diff: "k < min n (l - start) \<Longrightarrow> start + k < (l::nat)"
  by arith

lemma region_nth:
  assumes "k < min n (length xs - start)"
  shows "(take n (drop start xs) @ ys) ! k = xs ! (start + k)"
proof -
  from assms have "start + k < length xs" by (rule less_min_diff)
  with assms show ?thesis by (simp add: nth_append)
qed

lemma Standard_Get_region_eq:
  "Standard_Get_region x i n buf =
     (min n (length x - i), take n (drop i x) @ drop (min n (length x - i)) buf)"
  by (simp add: Standard_Get_region_def write_buf_def Let_def min_def)

lemma Get_region_all_elems:
  assumes "cache_ok na (alt, r)" and "n \<le> length buf"
  shows "Get_region na alt r start n buf =
     (min n (Length alt - start),
      take n (drop start (all_elems na (data1 alt))) @ drop (min n (Length alt - start)) buf)"
proof (cases "Representation alt")
  case None
  from Get_region_unmaterialized [OF None assms(2)] show ?thesis .
next
  case (Some p)
  with assms(1) have "heap r ! p = all_elems na (data1 alt)"
    by (simp add: cache_ok_def)
  with Some show ?thesis
    by (simp add: Get_region_def Standard_Get_region_eq length_all_elems Length_def)
qed

lemma ArrayResolve_loop_codes:
  "i < sum_list (map arr_length cs) \<Longrightarrow>
   \<exists>a. array' (ArrayResolve_loop cs i k) = Some a \<and> a \<in> set cs
     \<and> index' (ArrayResolve_loop cs i k) < arr_length a
     \<and> chunk_codes arrays (position' (ArrayResolve_loop cs i k)) a ! index' (ArrayResolve_loop cs i k)
         = codes_from arrays k cs ! i"
proof (induction cs arbitrary: i k)
  case Nil
  then show ?case by simp
next
  case (Cons c cs)
  show ?case
  proof (cases "i < arr_length c")
    case True
    then show ?thesis by (simp add: nth_append)
  next
    case False
    with Cons.prems have "i - arr_length c < sum_list (map arr_length cs)" by simp
    from Cons.IH [OF this, of "k + 1"] False show ?thesis
      by (auto simp: nth_append)
  qed
qed

lemma Elt_factor_unmaterialized:
  assumes none: "Representation alt = None" and wf: "wf_factor alt" and i: "i < Length alt"
  shows "Elt_factor alt r i = Some (factor_elems alt ! i)"
proof -
  let ?res = "ArrayResolve (data1 alt) i"
  from i have "i < sum_list (map arr_length (chunks (data1 alt)))"
    by (simp add: Length_def length_ca_def)
  from ArrayResolve_loop_codes [OF this, of 0 "arrays_transpose alt"]
  obtain a where a: "array' ?res = Some a" "a \<in> set (chunks (data1 alt))"
      "index' ?res < arr_length a"
      "chunk_codes (arrays_transpose alt) (position' ?res) a ! index' ?res = factor_elems alt ! i"
    by (auto simp: ArrayResolve_def factor_elems_def)
  from wf a(2) have int: "integer_index a"
    by (simp add: wf_factor_def list_all_iff wf_dictionary_array_def)
  from a(3) have "chunk_codes (arrays_transpose alt) (position' ?res) a ! index' ?res
      = factor_code (arrays_transpose alt) (position' ?res) a (index' ?res)"
    unfolding chunk_codes_def by (subst nth_map) simp_all
  with a(4) have code: "factor_code (arrays_transpose alt) (position' ?res) a (index' ?res)
      = factor_elems alt ! i"
    by simp
  from int have "Elt_factor alt r i
      = Some (factor_code (arrays_transpose alt) (position' ?res) a (index' ?res))"
    using none a(1)
    by (auto simp: Elt_factor_def Let_def factor_code_def integer_index_def split: option.splits)
  with code show ?thesis by simp
qed

lemma Elt_factor_cache:
  assumes "cache_ok_factor (alt, r)" and "wf_factor alt" and "i < Length alt"
  shows "Elt_factor alt r i = Some (factor_elems alt ! i)"
proof (cases "Representation alt")
  case None
  from Elt_factor_unmaterialized [OF None assms(2,3)] show ?thesis .
next
  case (Some p)
  with assms(1) show ?thesis
    by (simp add: cache_ok_factor_def Elt_factor_def)
qed

lemma length_factor_elems: "length (factor_elems alt) = Length alt"
  by (simp add: factor_elems_def length_codes_from Length_def length_ca_def)

lemma Get_region_factor_elems:
  assumes "cache_ok_factor (alt, r)" and "wf_factor alt" and "n \<le> length buf"
  shows "Get_region_factor alt r start n buf =
     (min n (Length alt - start),
      take n (drop start (factor_elems alt)) @ drop (min n (Length alt - start)) buf)"
proof (cases "Representation alt")
  case None
  from Get_region_factor_unmaterialized [OF None assms(2,3)] show ?thesis .
next
  case (Some p)
  with assms(1) have "heap r ! p = factor_elems alt"
    by (simp add: cache_ok_factor_def)
  with Some show ?thesis
    by (simp add: Get_region_factor_def Standard_Get_region_eq length_factor_elems)
qed

lemmas example_defs =
  example_int32_def example_chunk1_def example_chunk2_def example_session_def
  example_dictionary_def example_dict1_def example_dict2_def example_factor_def

text \<open>
  C3. A region request \<open>(start, n)\<close> into a buffer with room for \<open>n\<close> cells copies
  \<open>min n (Length - start)\<close> cells (none when \<open>start\<close> is at or past the length), cell
  \<open>k\<close> of the buffer then holds what the element accessor returns at \<open>start + k\<close>
  (the sentinel for a null slot), and the rest of the buffer is left as it was. This
  holds for the primitive class and for the factor class, materialized or not, and for
  the factor class with the transpose buffer of the chunk that covers each position.
  Indices and counts are natural numbers; the dictionary chunks are well formed.
\<close>

theorem Get_region_eq_Elt:
  "(cache_ok na (alt, r) \<and> n \<le> length buf \<longrightarrow>
      (case Get_region na alt r start n buf of (ncopy, buf') \<Rightarrow>
         ncopy = min n (Length alt - start)
         \<and> (start \<ge> Length alt \<longrightarrow> ncopy = 0)
         \<and> (\<forall>k<ncopy. Elt na alt (start + k) = Some (buf' ! k))
         \<and> drop ncopy buf' = drop ncopy buf))
   \<and> (cache_ok_factor (falt, fr) \<and> wf_factor falt \<and> n \<le> length fbuf \<longrightarrow>
      (case Get_region_factor falt fr start n fbuf of (ncopy, buf') \<Rightarrow>
         ncopy = min n (Length falt - start)
         \<and> (start \<ge> Length falt \<longrightarrow> ncopy = 0)
         \<and> (\<forall>k<ncopy. Elt_factor falt fr (start + k) = Some (buf' ! k))
         \<and> drop ncopy buf' = drop ncopy fbuf))"
proof (intro conjI impI; elim conjE)
  assume ok: "cache_ok na (alt, r)" and room: "n \<le> length buf"
  let ?n = "min n (Length alt - start)"
  have "Elt na alt (start + k) = Some ((take n (drop start (all_elems na (data1 alt))) @ drop ?n buf) ! k)"
    if "k < ?n" for k
  proof -
    from that have "start + k < Length alt" by (rule less_min_diff)
    from Elt_all_elems [OF this, of na] that show ?thesis
      by (simp add: region_nth length_all_elems Length_def)
  qed
  then show "case Get_region na alt r start n buf of (ncopy, buf') \<Rightarrow>
         ncopy = min n (Length alt - start)
         \<and> (start \<ge> Length alt \<longrightarrow> ncopy = 0)
         \<and> (\<forall>k<ncopy. Elt na alt (start + k) = Some (buf' ! k))
         \<and> drop ncopy buf' = drop ncopy buf"
    using room
    by (simp add: Get_region_all_elems [OF ok room] length_all_elems Length_def)
next
  assume ok: "cache_ok_factor (falt, fr)" and wf: "wf_factor falt" and room: "n \<le> length fbuf"
  let ?n = "min n (Length falt - start)"
  have "Elt_factor falt fr (start + k)
      = Some ((take n (drop start (factor_elems falt)) @ drop ?n fbuf) ! k)"
    if "k < ?n" for k
  proof -
    from that have "start + k < Length falt" by (rule less_min_diff)
    from Elt_factor_cache [OF ok wf this] that show ?thesis
      by (simp add: region_nth length_factor_elems)
  qed
  then show "case Get_region_factor falt fr start n fbuf of (ncopy, buf') \<Rightarrow>
         ncopy = min n (Length falt - start)
         \<and> (start \<ge> Length falt \<longrightarrow> ncopy = 0)
         \<and> (\<forall>k<ncopy. Elt_factor falt fr (start + k) = Some (buf' ! k))
         \<and> drop ncopy buf' = drop ncopy fbuf"
    using room
    by (simp add: Get_region_factor_elems [OF ok wf room] length_factor_elems)
qed

theorem Get_region_eq_Elt_witness:
  "(cache_ok NA_INTEGER (Make example_int32, example_session) \<and> 5 \<le> length [0::32 word, 0, 0, 0, 0])
   \<and> (case Get_region NA_INTEGER (Make example_int32) example_session 1 5 [0, 0, 0, 0, 0] of
        (ncopy, buf') \<Rightarrow>
          ncopy = min 5 (Length (Make example_int32) - 1)
          \<and> (1 \<ge> Length (Make example_int32) \<longrightarrow> ncopy = 0)
          \<and> (\<forall>k<ncopy. Elt NA_INTEGER (Make example_int32) (1 + k) = Some (buf' ! k))
          \<and> drop ncopy buf' = drop ncopy [0, 0, 0, 0, 0])
   \<and> Get_region NA_INTEGER (Make example_int32) example_session 1 5 [0, 0, 0, 0, 0]
        = (2, [NA_INTEGER, 40, 0, 0, 0])
   \<and> (cache_ok_factor (example_factor, example_session) \<and> wf_factor example_factor
        \<and> 2 \<le> length [0::32 word, 0])
   \<and> (case Get_region_factor example_factor example_session 1 2 [0, 0] of
        (ncopy, buf') \<Rightarrow>
          ncopy = min 2 (Length example_factor - 1)
          \<and> (1 \<ge> Length example_factor \<longrightarrow> ncopy = 0)
          \<and> (\<forall>k<ncopy. Elt_factor example_factor example_session (1 + k) = Some (buf' ! k))
          \<and> drop ncopy buf' = drop ncopy [0, 0])
   \<and> Get_region_factor example_factor example_session 1 2 [0, 0] = (2, [2, 2])"
proof -
  have h1: "cache_ok NA_INTEGER (Make example_int32, example_session)"
    by (simp add: cache_ok_def Representation_def Make_def)
  have h2: "cache_ok_factor (example_factor, example_session)"
    by (simp add: cache_ok_factor_def Representation_def example_factor_def)
  have h3: "wf_factor example_factor"
    by (simp add: wf_factor_def wf_dictionary_array_def integer_index_def valid_index_def
        example_defs IsNull_def GetValues_def upt_rec [of _ "numeral _"] upt_rec [of _ "Suc _"])
  have l1: "5 \<le> length [0::32 word, 0, 0, 0, 0]" and l2: "2 \<le> length [0::32 word, 0]"
    by simp_all
  have e1: "Get_region NA_INTEGER (Make example_int32) example_session 1 5 [0, 0, 0, 0, 0]
        = (2, [NA_INTEGER, 40, 0, 0, 0])"
    by (simp add: Get_region_def Representation_def Make_def Slice_def Let_def length_ca_def
        num_chunks_def example_defs Array_Slice_def copy_chunk_def null_count_def IsNull_def
        GetValues_def write_buf_def upt_rec [of _ "numeral _"] upt_rec [of _ "Suc _"])
  have e2: "Get_region_factor example_factor example_session 1 2 [0, 0] = (2, [2, 2])"
    by (simp add: Get_region_factor_def Representation_def Slice_def Let_def length_ca_def
        num_chunks_def example_defs Array_Slice_def IsNull_def write_dispatch_def
        GetRegionDispatch_def GetRegionTranspose_def
        GetValues_def write_buf_def upt_rec [of _ "numeral _"] upt_rec [of _ "Suc _"])
  have p1: "case Get_region NA_INTEGER (Make example_int32) example_session 1 5 [0, 0, 0, 0, 0] of
        (ncopy, buf') \<Rightarrow>
          ncopy = min 5 (Length (Make example_int32) - 1)
          \<and> (1 \<ge> Length (Make example_int32) \<longrightarrow> ncopy = 0)
          \<and> (\<forall>k<ncopy. Elt NA_INTEGER (Make example_int32) (1 + k) = Some (buf' ! k))
          \<and> drop ncopy buf' = drop ncopy [0, 0, 0, 0, 0]"
    by (rule mp [OF conjunct1 [OF Get_region_eq_Elt]]) (intro conjI h1 l1)
  have p2: "case Get_region_factor example_factor example_session 1 2 [0, 0] of
        (ncopy, buf') \<Rightarrow>
          ncopy = min 2 (Length example_factor - 1)
          \<and> (1 \<ge> Length example_factor \<longrightarrow> ncopy = 0)
          \<and> (\<forall>k<ncopy. Elt_factor example_factor example_session (1 + k) = Some (buf' ! k))
          \<and> drop ncopy buf' = drop ncopy [0, 0]"
    by (rule mp [OF conjunct2 [OF Get_region_eq_Elt]]) (intro conjI h2 h3 l2)
  show ?thesis
    by (intro conjI h1 h2 h3 l1 l2 e1 e2 p1 p2)
qed

section \<open>Materialization: once, and for good\<close>

lemma Materialize_materialized:
  "Representation alt = Some p \<Longrightarrow> Materialize na (alt, r) = (p, alt, r)"
  by (simp add: Materialize_def)

lemma Materialize_twice:
  "case Materialize na s of (x, s') \<Rightarrow> Materialize na s' = (x, s')"
proof (cases s)
  case (Pair alt r)
  show ?thesis
  proof (cases "Representation alt")
    case None
    with Pair show ?thesis
      by (simp add: Materialize_unmaterialized Materialize_materialized Representation_def)
  next
    case (Some p)
    with Pair show ?thesis
      by (simp add: Materialize_materialized)
  qed
qed

lemma Materialize_first:
  assumes "\<not> IsMaterialized alt"
  shows "case Materialize na (alt, r) of (x, alt', r') \<Rightarrow>
           x = length (heap r) \<and> Representation alt' = Some x \<and> data1 alt' = data1 alt
           \<and> length (heap r') = Suc (length (heap r)) \<and> take (length (heap r)) (heap r') = heap r
           \<and> cache_ok na (alt', r')"
  using assms
  by (simp add: IsMaterialized_def Materialize_unmaterialized Representation_def cache_ok_def)

lemma exec_materialized:
  assumes "Representation alt = Some p" and "p < length (heap r)"
  shows "Representation (fst (exec na c (alt, r))) = Some p
     \<and> heap (snd (exec na c (alt, r))) ! p = heap r ! p
     \<and> p < length (heap (snd (exec na c (alt, r))))
     \<and> data1 (fst (exec na c (alt, r))) = data1 alt"
  using assms
  by (cases c)
     (simp_all add: Materialize_materialized Duplicate_def Rf_duplicate_def Dataptr_def
       IsMaterialized_def nth_append)

lemma exec_data1: "data1 (fst (exec na c s)) = data1 (fst s)"
proof (cases s)
  case (Pair alt r)
  show ?thesis
  proof (cases "Representation alt")
    case None
    with Pair show ?thesis
      by (cases c)
         (simp_all add: Materialize_unmaterialized Duplicate_def Rf_duplicate_def Dataptr_def)
  next
    case (Some p)
    with Pair show ?thesis
      by (cases c)
         (simp_all add: Materialize_materialized Duplicate_def Rf_duplicate_def Dataptr_def
           IsMaterialized_def)
  qed
qed

lemma exec_cache_ok: "cache_ok na s \<Longrightarrow> cache_ok na (exec na c s)"
proof (cases s)
  case (Pair alt r)
  assume ok: "cache_ok na s"
  show ?thesis
  proof (cases "Representation alt")
    case None
    with Pair show ?thesis
      by (cases c)
         (simp_all add: Materialize_unmaterialized Duplicate_def Rf_duplicate_def Dataptr_def
           cache_ok_def Representation_def IsMaterialized_def nth_append)
  next
    case (Some p)
    with Pair ok show ?thesis
      by (cases c)
         (simp_all add: Materialize_materialized Duplicate_def Rf_duplicate_def Dataptr_def
           cache_ok_def IsMaterialized_def nth_append)
  qed
qed

lemma cache_ok_Make: "cache_ok na (Make ca, r)"
  by (simp add: cache_ok_def Make_def Representation_def)

lemma fold_exec_cache_ok: "cache_ok na s \<Longrightarrow> cache_ok na (fold (exec na) cs s)"
  by (induction cs arbitrary: s) (simp_all add: exec_cache_ok)

lemma fold_exec_materialized:
  "Representation alt = Some p \<Longrightarrow> p < length (heap r) \<Longrightarrow>
   Representation (fst (fold (exec na) cs (alt, r))) = Some p
     \<and> heap (snd (fold (exec na) cs (alt, r))) ! p = heap r ! p
     \<and> data1 (fst (fold (exec na) cs (alt, r))) = data1 alt"
proof (induction cs arbitrary: alt r)
  case Nil
  then show ?case by simp
next
  case (Cons c cs)
  obtain alt' r' where s': "exec na c (alt, r) = (alt', r')"
    by (cases "exec na c (alt, r)")
  from exec_materialized [OF Cons.prems, of na c] s'
  have *: "Representation alt' = Some p" "heap r' ! p = heap r ! p" "p < length (heap r')"
      "data1 alt' = data1 alt"
    by simp_all
  from Cons.IH [OF *(1) *(3)] *(2) *(4) s' show ?case by simp
qed

lemma Materialize_factor_materialized:
  "Representation alt = Some p \<Longrightarrow> Materialize_factor (alt, r) = (p, alt, r)"
  by (simp add: Materialize_factor_def)

lemma Materialize_factor_shape:
  assumes "Representation alt = None"
  shows "\<exists>buf. Materialize_factor (alt, r) =
     (length (heap r), alt\<lparr>data2 := Some (length (heap r))\<rparr>, r\<lparr>heap := heap r @ [buf]\<rparr>)"
  using assms
  by (auto simp: Materialize_factor_def Rf_allocVector_def set_vector_def SetRepresentation_def
      Let_def case_prod_beta)

lemma Materialize_factor_unmaterialized:
  assumes none: "Representation alt = None" and wf: "wf_factor alt"
  shows "Materialize_factor (alt, r) =
     (length (heap r), alt\<lparr>data2 := Some (length (heap r))\<rparr>,
      r\<lparr>heap := heap r @ [factor_elems alt]\<rparr>)"
proof -
  let ?r1 = "r\<lparr>heap := heap r @ [map (garbage r) [0..<Length alt]]\<rparr>"
  have "Get_region_factor alt ?r1 0 (Length alt) (map (garbage r) [0..<Length alt])
      = (Length alt, factor_elems alt)"
    using none wf length_factor_elems [of alt]
    by (subst Get_region_factor_unmaterialized) simp_all
  with none show ?thesis
    by (simp add: Materialize_factor_def Rf_allocVector_def set_vector_def SetRepresentation_def
        Let_def)
qed

lemma Materialize_factor_twice:
  "case Materialize_factor s of (x, s') \<Rightarrow> Materialize_factor s' = (x, s')"
proof (cases s)
  case (Pair alt r)
  show ?thesis
  proof (cases "Representation alt")
    case None
    from Materialize_factor_shape [OF None, of r] Pair show ?thesis
      by (auto simp: Materialize_factor_materialized Representation_def)
  next
    case (Some p)
    with Pair show ?thesis
      by (simp add: Materialize_factor_materialized)
  qed
qed

lemma Materialize_factor_first:
  assumes "\<not> IsMaterialized alt"
  shows "case Materialize_factor (alt, r) of (x, alt', r') \<Rightarrow>
           x = length (heap r) \<and> Representation alt' = Some x \<and> data1 alt' = data1 alt
           \<and> arrays_transpose alt' = arrays_transpose alt
           \<and> length (heap r') = Suc (length (heap r)) \<and> take (length (heap r)) (heap r') = heap r"
proof -
  from assms have none: "Representation alt = None" by (simp add: IsMaterialized_def)
  from Materialize_factor_shape [OF none, of r] show ?thesis
    by (auto simp: Representation_def)
qed

lemma exec_factor_materialized:
  assumes "Representation alt = Some p" and "p < length (heap r)"
  shows "Representation (fst (exec_factor c (alt, r))) = Some p
     \<and> heap (snd (exec_factor c (alt, r))) ! p = heap r ! p
     \<and> p < length (heap (snd (exec_factor c (alt, r))))
     \<and> data1 (fst (exec_factor c (alt, r))) = data1 alt
     \<and> arrays_transpose (fst (exec_factor c (alt, r))) = arrays_transpose alt"
  using assms
  by (cases c) (simp_all add: Materialize_factor_materialized Dataptr_factor_def)

lemma fold_exec_factor_materialized:
  "Representation alt = Some p \<Longrightarrow> p < length (heap r) \<Longrightarrow>
   Representation (fst (fold exec_factor cs (alt, r))) = Some p
     \<and> heap (snd (fold exec_factor cs (alt, r))) ! p = heap r ! p
     \<and> data1 (fst (fold exec_factor cs (alt, r))) = data1 alt"
proof (induction cs arbitrary: alt r)
  case Nil
  then show ?case by simp
next
  case (Cons c cs)
  obtain alt' r' where s': "exec_factor c (alt, r) = (alt', r')"
    by (cases "exec_factor c (alt, r)")
  from exec_factor_materialized [OF Cons.prems, of c] s'
  have *: "Representation alt' = Some p" "heap r' ! p = heap r ! p" "p < length (heap r')"
      "data1 alt' = data1 alt"
    by simp_all
  from Cons.IH [OF *(1) *(3)] *(2) *(4) s' show ?case by simp
qed

text \<open>The source and the transpose buffers of a factor object never change.\<close>

lemma exec_factor_frame:
  "data1 (fst (exec_factor c s)) = data1 (fst s)
   \<and> arrays_transpose (fst (exec_factor c s)) = arrays_transpose (fst s)
   \<and> levels (fst (exec_factor c s)) = levels (fst s)"
proof (cases s)
  case (Pair alt r)
  show ?thesis
  proof (cases "Representation alt")
    case None
    from Materialize_factor_shape [OF None, of r] Pair show ?thesis
      by (cases c) (auto simp: Dataptr_factor_def)
  next
    case (Some p)
    with Pair show ?thesis
      by (cases c) (simp_all add: Materialize_factor_materialized Dataptr_factor_def)
  qed
qed

lemma exec_factor_wf: "wf_factor (fst s) \<Longrightarrow> wf_factor (fst (exec_factor c s))"
  using exec_factor_frame [of c s] by (simp add: wf_factor_def)

lemma exec_factor_cache_ok:
  assumes "wf_factor (fst s)" and "cache_ok_factor s"
  shows "cache_ok_factor (exec_factor c s)"
proof (cases s)
  case (Pair alt r)
  with assms have wf: "wf_factor alt" and ok: "cache_ok_factor (alt, r)" by simp_all
  show ?thesis
  proof (cases "Representation alt")
    case None
    have "factor_elems (alt\<lparr>data2 := Some (length (heap r))\<rparr>) = factor_elems alt"
      by (simp add: factor_elems_def)
    with None Pair show ?thesis
      by (cases c)
         (simp_all add: Materialize_factor_unmaterialized [OF None wf] Dataptr_factor_def
           cache_ok_factor_def Representation_def)
  next
    case (Some p)
    with Pair ok show ?thesis
      by (cases c) (simp_all add: Materialize_factor_materialized Dataptr_factor_def)
  qed
qed

lemma Materialize_string_materialized:
  "Representation alt = Some p \<Longrightarrow> Materialize_string (alt, r) = Return p (alt, r)"
  by (simp add: Materialize_string_def)

lemma Materialize_string_Return:
  assumes "Representation alt = None" and "Materialize_string (alt, r) = Return x (alt', r')"
  shows "x = length (heap r) \<and> alt' = alt\<lparr>data2 := Some (length (heap r))\<rparr>"
  using assms
  by (auto simp: Materialize_string_def Rf_allocVector_def SetRepresentation_def Let_def
      split: sum.splits prod.splits)

lemma Materialize_string_twice:
  "case Materialize_string s of
     Return x s' \<Rightarrow> Materialize_string s' = Return x s'
   | R_error msg s' \<Rightarrow> True
   | Crash \<Rightarrow> True"
proof (cases s)
  case (Pair alt r)
  show ?thesis
  proof (cases "Representation alt")
    case None
    show ?thesis
    proof (cases "Materialize_string s")
      case (Return x s')
      obtain alt' r' where s': "s' = (alt', r')" by (cases s')
      from Return Pair s' have "Materialize_string (alt, r) = Return x (alt', r')" by simp
      from Materialize_string_Return [OF None this]
      have "x = length (heap r)" "alt' = alt\<lparr>data2 := Some (length (heap r))\<rparr>" by simp_all
      with Return s' show ?thesis
        by (simp add: Materialize_string_materialized Representation_def)
    qed simp_all
  next
    case (Some p)
    with Pair show ?thesis by (simp add: Materialize_string_materialized)
  qed
qed

lemma exec_string_materialized:
  assumes "Representation alt = Some p" and "p < length (heap r)"
  shows "Representation (fst (exec_string c (alt, r))) = Some p
     \<and> heap (snd (exec_string c (alt, r))) ! p = heap r ! p
     \<and> p < length (heap (snd (exec_string c (alt, r))))
     \<and> data1 (fst (exec_string c (alt, r))) = data1 alt"
  using assms
  by (cases c)
     (simp_all add: Materialize_string_materialized Duplicate_string_def Rf_duplicate_def
       Dataptr_string_def Elt_string_def Set_elt_def nth_append)

lemma fold_exec_string_materialized:
  "Representation alt = Some p \<Longrightarrow> p < length (heap r) \<Longrightarrow>
   Representation (fst (fold exec_string cs (alt, r))) = Some p
     \<and> heap (snd (fold exec_string cs (alt, r))) ! p = heap r ! p
     \<and> data1 (fst (fold exec_string cs (alt, r))) = data1 alt"
proof (induction cs arbitrary: alt r)
  case Nil
  then show ?case by simp
next
  case (Cons c cs)
  obtain alt' r' where s': "exec_string c (alt, r) = (alt', r')"
    by (cases "exec_string c (alt, r)")
  from exec_string_materialized [OF Cons.prems, of c] s'
  have *: "Representation alt' = Some p" "heap r' ! p = heap r ! p" "p < length (heap r')"
      "data1 alt' = data1 alt"
    by simp_all
  from Cons.IH [OF *(1) *(3)] *(2) *(4) s' show ?case by simp
qed

text \<open>
  C2. For the primitive, the factor and the string class: (1) a second call of
  \<open>Materialize\<close> right after the first returns the same address and leaves the very
  same state, so nothing is allocated, copied or converted again; (2) the first call on
  an object that is not materialized allocates exactly one vector, at a fresh address,
  leaves the vectors that existed as they were and stores that address as data2; (3)
  once data2 is the address of an allocated vector, no sequence of calls of the methods
  R can call changes data2 or the contents of that vector.
\<close>

theorem Materialize_single_assignment:
  "(case Materialize na s of (x, s') \<Rightarrow> Materialize na s' = (x, s'))
   \<and> (case Materialize_factor fs of (x, s') \<Rightarrow> Materialize_factor s' = (x, s'))
   \<and> (case Materialize_string ss of
         Return x s' \<Rightarrow> Materialize_string s' = Return x s'
       | R_error msg s' \<Rightarrow> True
       | Crash \<Rightarrow> True)
   \<and> (\<not> IsMaterialized alt \<longrightarrow>
        (case Materialize na (alt, r) of (x, alt', r') \<Rightarrow>
           x = length (heap r) \<and> Representation alt' = Some x \<and> data1 alt' = data1 alt
           \<and> length (heap r') = Suc (length (heap r)) \<and> take (length (heap r)) (heap r') = heap r))
   \<and> (\<not> IsMaterialized falt \<longrightarrow>
        (case Materialize_factor (falt, fr) of (x, alt', r') \<Rightarrow>
           x = length (heap fr) \<and> Representation alt' = Some x \<and> data1 alt' = data1 falt
           \<and> length (heap r') = Suc (length (heap fr)) \<and> take (length (heap fr)) (heap r') = heap fr))
   \<and> (\<not> IsMaterialized salt \<and> Materialize_string (salt, sr) = Return x (salt', sr') \<longrightarrow>
        x = length (heap sr) \<and> Representation salt' = Some x \<and> data1 salt' = data1 salt)
   \<and> (Representation malt = Some p \<and> p < length (heap mr) \<longrightarrow>
        Representation (fst (fold (exec na) cs (malt, mr))) = Some p
        \<and> heap (snd (fold (exec na) cs (malt, mr))) ! p = heap mr ! p)
   \<and> (Representation mfalt = Some p \<and> p < length (heap mfr) \<longrightarrow>
        Representation (fst (fold exec_factor cs (mfalt, mfr))) = Some p
        \<and> heap (snd (fold exec_factor cs (mfalt, mfr))) ! p = heap mfr ! p)
   \<and> (Representation msalt = Some p \<and> p < length (heap msr) \<longrightarrow>
        Representation (fst (fold exec_string scs (msalt, msr))) = Some p
        \<and> heap (snd (fold exec_string scs (msalt, msr))) ! p = heap msr ! p)"
proof -
  have p1: "\<not> IsMaterialized alt \<longrightarrow>
        (case Materialize na (alt, r) of (x, alt', r') \<Rightarrow>
           x = length (heap r) \<and> Representation alt' = Some x \<and> data1 alt' = data1 alt
           \<and> length (heap r') = Suc (length (heap r)) \<and> take (length (heap r)) (heap r') = heap r)"
  proof
    assume "\<not> IsMaterialized alt"
    from Materialize_first [OF this]
    show "case Materialize na (alt, r) of (x, alt', r') \<Rightarrow>
           x = length (heap r) \<and> Representation alt' = Some x \<and> data1 alt' = data1 alt
           \<and> length (heap r') = Suc (length (heap r)) \<and> take (length (heap r)) (heap r') = heap r"
      by (simp add: case_prod_beta)
  qed
  have p2: "\<not> IsMaterialized falt \<longrightarrow>
        (case Materialize_factor (falt, fr) of (x, alt', r') \<Rightarrow>
           x = length (heap fr) \<and> Representation alt' = Some x \<and> data1 alt' = data1 falt
           \<and> length (heap r') = Suc (length (heap fr)) \<and> take (length (heap fr)) (heap r') = heap fr)"
  proof
    assume "\<not> IsMaterialized falt"
    from Materialize_factor_first [OF this]
    show "case Materialize_factor (falt, fr) of (x, alt', r') \<Rightarrow>
           x = length (heap fr) \<and> Representation alt' = Some x \<and> data1 alt' = data1 falt
           \<and> length (heap r') = Suc (length (heap fr)) \<and> take (length (heap fr)) (heap r') = heap fr"
      by (simp add: case_prod_beta)
  qed
  have p3: "\<not> IsMaterialized salt \<and> Materialize_string (salt, sr) = Return x (salt', sr') \<longrightarrow>
        x = length (heap sr) \<and> Representation salt' = Some x \<and> data1 salt' = data1 salt"
  proof
    assume "\<not> IsMaterialized salt \<and> Materialize_string (salt, sr) = Return x (salt', sr')"
    then have "Representation salt = None" "Materialize_string (salt, sr) = Return x (salt', sr')"
      by (simp_all add: IsMaterialized_def)
    from Materialize_string_Return [OF this]
    show "x = length (heap sr) \<and> Representation salt' = Some x \<and> data1 salt' = data1 salt"
      by (simp add: Representation_def)
  qed
  have i1: "Representation malt = Some p \<and> p < length (heap mr) \<longrightarrow>
        Representation (fst (fold (exec na) cs (malt, mr))) = Some p
        \<and> heap (snd (fold (exec na) cs (malt, mr))) ! p = heap mr ! p"
    using fold_exec_materialized [of malt p mr na cs] by simp
  have i2: "Representation mfalt = Some p \<and> p < length (heap mfr) \<longrightarrow>
        Representation (fst (fold exec_factor cs (mfalt, mfr))) = Some p
        \<and> heap (snd (fold exec_factor cs (mfalt, mfr))) ! p = heap mfr ! p"
    using fold_exec_factor_materialized [of mfalt p mfr cs] by simp
  have i3: "Representation msalt = Some p \<and> p < length (heap msr) \<longrightarrow>
        Representation (fst (fold exec_string scs (msalt, msr))) = Some p
        \<and> heap (snd (fold exec_string scs (msalt, msr))) ! p = heap msr ! p"
    using fold_exec_string_materialized [of msalt p msr scs] by simp
  show ?thesis
    by (intro conjI Materialize_twice Materialize_factor_twice Materialize_string_twice
        p1 p2 p3 i1 i2 i3)
qed

lemmas example_string_defs =
  example_strings_def example_string_chunk_def example_string_session_def

theorem Materialize_single_assignment_witness:
  "\<not> IsMaterialized (Make example_int32)
   \<and> (case Materialize NA_INTEGER (Make example_int32, example_session) of (x, alt', r') \<Rightarrow>
           x = length (heap example_session) \<and> Representation alt' = Some x
           \<and> data1 alt' = data1 (Make example_int32)
           \<and> length (heap r') = Suc (length (heap example_session))
           \<and> take (length (heap example_session)) (heap r') = heap example_session)
   \<and> \<not> IsMaterialized example_factor
   \<and> (case Materialize_factor (example_factor, example_session) of (x, alt', r') \<Rightarrow>
           x = length (heap example_session) \<and> Representation alt' = Some x
           \<and> data1 alt' = data1 example_factor
           \<and> length (heap r') = Suc (length (heap example_session))
           \<and> take (length (heap example_session)) (heap r') = heap example_session)
   \<and> (\<not> IsMaterialized (Make example_strings)
        \<and> Materialize_string
             (Make example_strings, example_string_session [''arrow.skip_nul'' \<mapsto> True])
           = Return 0 (fst example_strings_materialized, snd example_strings_materialized))
   \<and> (0 = length (heap (example_string_session [''arrow.skip_nul'' \<mapsto> True]))
        \<and> Representation (fst example_strings_materialized) = Some 0
        \<and> data1 (fst example_strings_materialized) = data1 (Make example_strings))
   \<and> (Representation (fst example_int32_materialized) = Some 0
        \<and> 0 < length (heap (snd example_int32_materialized)))
   \<and> (Representation
          (fst (fold (exec NA_INTEGER) [Call_Duplicate, Call_Dataptr True, Call_Coerce, Call_Elt 1]
                 (fst example_int32_materialized, snd example_int32_materialized))) = Some 0
        \<and> heap (snd (fold (exec NA_INTEGER) [Call_Duplicate, Call_Dataptr True, Call_Coerce, Call_Elt 1]
                 (fst example_int32_materialized, snd example_int32_materialized))) ! 0
            = heap (snd example_int32_materialized) ! 0)
   \<and> (Representation (fst example_factor_materialized) = Some 0
        \<and> 0 < length (heap (snd example_factor_materialized)))
   \<and> (Representation
          (fst (fold exec_factor [Call_Duplicate, Call_Dataptr True, Call_Coerce, Call_Elt 1]
                 (fst example_factor_materialized, snd example_factor_materialized))) = Some 0
        \<and> heap (snd (fold exec_factor [Call_Duplicate, Call_Dataptr True, Call_Coerce, Call_Elt 1]
                 (fst example_factor_materialized, snd example_factor_materialized))) ! 0
            = heap (snd example_factor_materialized) ! 0)
   \<and> (Representation (fst example_strings_materialized) = Some 0
        \<and> 0 < length (heap (snd example_strings_materialized)))
   \<and> (Representation
          (fst (fold exec_string [String_Duplicate, String_Elt 1, String_Set_elt 0 NA_STRING]
                 (fst example_strings_materialized, snd example_strings_materialized))) = Some 0
        \<and> heap (snd (fold exec_string [String_Duplicate, String_Elt 1, String_Set_elt 0 NA_STRING]
                 (fst example_strings_materialized, snd example_strings_materialized))) ! 0
            = heap (snd example_strings_materialized) ! 0)"
proof -
  note T = Materialize_single_assignment
    [where na = NA_INTEGER and alt = "Make example_int32" and r = example_session
       and falt = example_factor and fr = example_session
       and salt = "Make example_strings"
       and sr = "example_string_session [''arrow.skip_nul'' \<mapsto> True]"
       and x = 0 and salt' = "fst example_strings_materialized"
       and sr' = "snd example_strings_materialized"
       and malt = "fst example_int32_materialized" and mr = "snd example_int32_materialized"
       and mfalt = "fst example_factor_materialized" and mfr = "snd example_factor_materialized"
       and msalt = "fst example_strings_materialized" and msr = "snd example_strings_materialized"
       and p = 0
       and cs = "[Call_Duplicate, Call_Dataptr True, Call_Coerce, Call_Elt 1]"
       and scs = "[String_Duplicate, String_Elt 1, String_Set_elt 0 NA_STRING]"]
  have h1: "\<not> IsMaterialized (Make example_int32)"
    by (simp add: IsMaterialized_def Representation_def Make_def)
  have h2: "\<not> IsMaterialized example_factor"
    by (simp add: IsMaterialized_def Representation_def example_factor_def)
  have h3: "\<not> IsMaterialized (Make example_strings)
        \<and> Materialize_string
             (Make example_strings, example_string_session [''arrow.skip_nul'' \<mapsto> True])
           = Return 0 (fst example_strings_materialized, snd example_strings_materialized)"
    by (simp add: IsMaterialized_def Materialize_string_def Make_def Representation_def
        SetRepresentation_def
        Rf_allocVector_def length_ca_def example_string_defs example_strings_materialized_def
        RStringViewer_init_def GetBoolOption_def Convert_def IsNull_def GetValues_def
        ConvertStripNul_def strip_step_def SET_STRING_ELT_def cpp11_warning_def Let_def
        upt_rec [of _ "numeral _"] upt_rec [of _ "Suc _"])
  have h4: "Representation (fst example_int32_materialized) = Some 0
        \<and> 0 < length (heap (snd example_int32_materialized))"
    by (simp add: example_int32_materialized_def Representation_def)
  have h5: "Representation (fst example_factor_materialized) = Some 0
        \<and> 0 < length (heap (snd example_factor_materialized))"
    by (simp add: example_factor_materialized_def Representation_def)
  have h6: "Representation (fst example_strings_materialized) = Some 0
        \<and> 0 < length (heap (snd example_strings_materialized))"
    by (simp add: example_strings_materialized_def Representation_def)
  note c2 = conjunct2
  note P1 = T [THEN c2, THEN c2, THEN c2, THEN conjunct1, THEN mp, OF h1]
  note P2 = T [THEN c2, THEN c2, THEN c2, THEN c2, THEN conjunct1, THEN mp, OF h2]
  note P3 = T [THEN c2, THEN c2, THEN c2, THEN c2, THEN c2, THEN conjunct1, THEN mp, OF h3]
  note I1 = T [THEN c2, THEN c2, THEN c2, THEN c2, THEN c2, THEN c2, THEN conjunct1, THEN mp,
      OF h4]
  note I2 = T [THEN c2, THEN c2, THEN c2, THEN c2, THEN c2, THEN c2, THEN c2, THEN conjunct1,
      THEN mp, OF h5]
  note I3 = T [THEN c2, THEN c2, THEN c2, THEN c2, THEN c2, THEN c2, THEN c2, THEN c2,
      THEN mp, OF h6]
  show ?thesis
    by (intro conjI h1 h2 h3 h4 h5 h6 P1 P2 P3 I1 I2 I3)
qed

section \<open>Properties of Sum, Min and Max\<close>

lemma null_count_le: "null_count a \<le> arr_length a"
  using length_filter_le [of "IsNull a" "[0..<arr_length a]"] by (simp add: null_count_def)

lemma all_null_chunks:
  "sum_list (map null_count cs) = sum_list (map arr_length cs) \<Longrightarrow>
   \<forall>a \<in> set cs. null_count a = arr_length a"
proof (induction cs)
  case Nil
  then show ?case by simp
next
  case (Cons c cs)
  have "null_count c \<le> arr_length c" by (rule null_count_le)
  moreover have "sum_list (map null_count cs) \<le> sum_list (map arr_length cs)"
    by (rule sum_list_mono) (simp add: null_count_le)
  ultimately have "null_count c = arr_length c"
      "sum_list (map null_count cs) = sum_list (map arr_length cs)"
    using Cons.prems by simp_all
  with Cons.IH show ?case by simp
qed

lemma all_null_no_valid:
  assumes "null_count a = arr_length a"
  shows "filter (\<lambda>j. \<not> IsNull a j) [0..<arr_length a] = []"
proof -
  have "length (filter (IsNull a) [0..<arr_length a])
      + length (filter (\<lambda>j. \<not> IsNull a j) [0..<arr_length a]) = length [0..<arr_length a]"
    by (rule sum_length_filter_compl)
  with assms have "length (filter (\<lambda>j. \<not> IsNull a j) [0..<arr_length a]) = 0"
    by (simp add: null_count_def)
  then show ?thesis by simp
qed

lemma valid_values_all_null:
  assumes "null_count_ca ca = length_ca ca"
  shows "valid_values ca = []"
proof -
  from assms all_null_chunks [of "chunks ca"]
  have "\<forall>a \<in> set (chunks ca). null_count a = arr_length a"
    by (simp add: null_count_ca_def length_ca_def)
  then show ?thesis
    by (simp add: valid_values_def all_null_no_valid)
qed

lemma MinMax_INTSXP_unskipped_null:
  "0 < null_count_ca (data1 alt) \<Longrightarrow> MinMax_INTSXP d is_min alt False = ScalarInteger NA_INTEGER"
  by (auto simp: MinMax_INTSXP_def Let_def)

lemma MinMax_REALSXP_unskipped_null:
  "0 < null_count_ca (data1 alt) \<Longrightarrow> MinMax_REALSXP d is_min alt False = ScalarReal (NA_REAL d)"
  by (auto simp: MinMax_REALSXP_def Let_def)

lemma sum_kernel_all_null:
  "null_count_ca ca = length_ca ca \<Longrightarrow> sum_kernel_int32 ca = 0"
  by (simp add: sum_kernel_int32_def valid_values_all_null)

lemmas aggregate_example_defs =
  example_1_na_3_def example_all_null_def example_int_min_def example_overflow_def
  example_dbl_1_na_3_def example_dbl_all_null_def example_doubles_def

text \<open>
  C4. For the int32 and the double instance of the primitive class: with \<open>narm\<close> false
  and at least one null, Min, Max and Sum return the sentinel (\<^verbatim>\<open>NA_INTEGER\<close>,
  \<^verbatim>\<open>NA_REAL\<close>); when \<open>narm\<close> is true or the length is zero, and every element is null,
  Min returns \<^verbatim>\<open>R_PosInf\<close> and Max returns \<^verbatim>\<open>R_NegInf\<close>; Sum with \<open>narm\<close> true over
  an input whose elements are all null returns 0 (the integer 0, the double zero); and a
  call of Sum, Min or Max leaves the object and the session as they are, so none of them
  materializes.
\<close>

theorem aggregates_null_policy:
  "(0 < null_count_ca (data1 alt) \<longrightarrow>
      MinMax_INTSXP d is_min alt False = ScalarInteger NA_INTEGER
      \<and> Sum_INTSXP d alt False = ScalarInteger NA_INTEGER)
   \<and> (0 < null_count_ca (data1 dalt) \<longrightarrow>
      MinMax_REALSXP d is_min dalt False = ScalarReal (NA_REAL d)
      \<and> Sum_REALSXP d dalt False = ScalarReal (NA_REAL d))
   \<and> ((narm \<or> length_ca (data1 nalt) = 0) \<and> null_count_ca (data1 nalt) = length_ca (data1 nalt) \<longrightarrow>
      MinMax_INTSXP d True nalt narm = ScalarReal (R_PosInf d)
      \<and> MinMax_INTSXP d False nalt narm = ScalarReal (R_NegInf d))
   \<and> ((narm \<or> length_ca (data1 ndalt) = 0)
        \<and> null_count_ca (data1 ndalt) = length_ca (data1 ndalt) \<longrightarrow>
      MinMax_REALSXP d True ndalt narm = ScalarReal (R_PosInf d)
      \<and> MinMax_REALSXP d False ndalt narm = ScalarReal (R_NegInf d))
   \<and> (null_count_ca (data1 nalt) = length_ca (data1 nalt) \<longrightarrow>
      Sum_INTSXP d nalt True = ScalarInteger 0)
   \<and> (null_count_ca (data1 ndalt) = length_ca (data1 ndalt) \<longrightarrow>
      Sum_REALSXP d ndalt True = ScalarReal (d_zero d))
   \<and> exec na (Call_Sum narm) s = s \<and> exec na (Call_Min narm) s = s
   \<and> exec na (Call_Max narm) s = s
   \<and> exec_factor (Call_Sum narm) fs = fs"
proof -
  have a1: "0 < null_count_ca (data1 alt) \<longrightarrow>
      MinMax_INTSXP d is_min alt False = ScalarInteger NA_INTEGER
      \<and> Sum_INTSXP d alt False = ScalarInteger NA_INTEGER"
    by (simp add: MinMax_INTSXP_unskipped_null Sum_INTSXP_def Let_def)
  have a2: "0 < null_count_ca (data1 dalt) \<longrightarrow>
      MinMax_REALSXP d is_min dalt False = ScalarReal (NA_REAL d)
      \<and> Sum_REALSXP d dalt False = ScalarReal (NA_REAL d)"
    by (simp add: MinMax_REALSXP_unskipped_null Sum_REALSXP_def Let_def)
  have b1: "(narm \<or> length_ca (data1 nalt) = 0)
        \<and> null_count_ca (data1 nalt) = length_ca (data1 nalt) \<longrightarrow>
      MinMax_INTSXP d True nalt narm = ScalarReal (R_PosInf d)
      \<and> MinMax_INTSXP d False nalt narm = ScalarReal (R_NegInf d)"
    by (simp add: MinMax_INTSXP_def Let_def)
  have b2: "(narm \<or> length_ca (data1 ndalt) = 0)
        \<and> null_count_ca (data1 ndalt) = length_ca (data1 ndalt) \<longrightarrow>
      MinMax_REALSXP d True ndalt narm = ScalarReal (R_PosInf d)
      \<and> MinMax_REALSXP d False ndalt narm = ScalarReal (R_NegInf d)"
    by (simp add: MinMax_REALSXP_def Let_def)
  have c1: "null_count_ca (data1 nalt) = length_ca (data1 nalt) \<longrightarrow>
      Sum_INTSXP d nalt True = ScalarInteger 0"
    by (simp add: Sum_INTSXP_def Let_def sum_kernel_all_null INT32_MIN_def INT32_MAX_def)
  have c2: "null_count_ca (data1 ndalt) = length_ca (data1 ndalt) \<longrightarrow>
      Sum_REALSXP d ndalt True = ScalarReal (d_zero d)"
    by (simp add: Sum_REALSXP_def Let_def sum_kernel_double_def valid_values_all_null)
  have e: "exec na (Call_Sum narm) s = s" "exec na (Call_Min narm) s = s"
      "exec na (Call_Max narm) s = s" "exec_factor (Call_Sum narm) fs = fs"
    by simp_all
  show ?thesis
    by (intro conjI a1 a2 b1 b2 c1 c2 e)
qed

theorem aggregates_null_policy_witness:
  "0 < null_count_ca (data1 (Make example_1_na_3))
   \<and> (MinMax_INTSXP example_doubles True (Make example_1_na_3) False = ScalarInteger NA_INTEGER
        \<and> Sum_INTSXP example_doubles (Make example_1_na_3) False = ScalarInteger NA_INTEGER)
   \<and> 0 < null_count_ca (data1 (Make example_dbl_1_na_3))
   \<and> (MinMax_REALSXP example_doubles True (Make example_dbl_1_na_3) False
          = ScalarReal (NA_REAL example_doubles)
        \<and> Sum_REALSXP example_doubles (Make example_dbl_1_na_3) False
          = ScalarReal (NA_REAL example_doubles))
   \<and> ((True \<or> length_ca (data1 (Make example_all_null)) = 0)
        \<and> null_count_ca (data1 (Make example_all_null)) = length_ca (data1 (Make example_all_null)))
   \<and> (MinMax_INTSXP example_doubles True (Make example_all_null) True
          = ScalarReal (R_PosInf example_doubles)
        \<and> MinMax_INTSXP example_doubles False (Make example_all_null) True
          = ScalarReal (R_NegInf example_doubles))
   \<and> ((True \<or> length_ca (data1 (Make example_dbl_all_null)) = 0)
        \<and> null_count_ca (data1 (Make example_dbl_all_null))
          = length_ca (data1 (Make example_dbl_all_null)))
   \<and> (MinMax_REALSXP example_doubles True (Make example_dbl_all_null) True
          = ScalarReal (R_PosInf example_doubles)
        \<and> MinMax_REALSXP example_doubles False (Make example_dbl_all_null) True
          = ScalarReal (R_NegInf example_doubles))
   \<and> Sum_INTSXP example_doubles (Make example_all_null) True = ScalarInteger 0
   \<and> Sum_REALSXP example_doubles (Make example_dbl_all_null) True
        = ScalarReal (d_zero example_doubles)
   \<and> Sum_INTSXP example_doubles (Make example_1_na_3) True = ScalarInteger 4
   \<and> MinMax_INTSXP example_doubles True (Make example_1_na_3) True = ScalarInteger 1
   \<and> MinMax_INTSXP example_doubles False (Make example_1_na_3) True = ScalarInteger 3"
proof -
  note T = aggregates_null_policy
    [where d = example_doubles and alt = "Make example_1_na_3"
       and dalt = "Make example_dbl_1_na_3" and nalt = "Make example_all_null"
       and ndalt = "Make example_dbl_all_null" and narm = True and is_min = True
       and na = NA_INTEGER and s = "(Make example_int32, example_session)"
       and fs = "(example_factor, example_session)"]
  have h1: "0 < null_count_ca (data1 (Make example_1_na_3))"
    by (simp add: Let_def Make_def null_count_ca_def null_count_def IsNull_def length_ca_def
        valid_values_def GetValues_def aggregate_example_defs INT32_MIN_def INT32_MAX_def
        upt_rec [of _ "numeral _"] upt_rec [of _ "Suc _"])
  have h2: "0 < null_count_ca (data1 (Make example_dbl_1_na_3))"
    by (simp add: Let_def Make_def null_count_ca_def null_count_def IsNull_def length_ca_def
        valid_values_def GetValues_def aggregate_example_defs INT32_MIN_def INT32_MAX_def
        upt_rec [of _ "numeral _"] upt_rec [of _ "Suc _"])
  have h3: "(True \<or> length_ca (data1 (Make example_all_null)) = 0)
        \<and> null_count_ca (data1 (Make example_all_null)) = length_ca (data1 (Make example_all_null))"
    by (simp add: Let_def Make_def null_count_ca_def null_count_def IsNull_def length_ca_def
        valid_values_def GetValues_def aggregate_example_defs INT32_MIN_def INT32_MAX_def
        upt_rec [of _ "numeral _"] upt_rec [of _ "Suc _"])
  have h4: "(True \<or> length_ca (data1 (Make example_dbl_all_null)) = 0)
        \<and> null_count_ca (data1 (Make example_dbl_all_null))
          = length_ca (data1 (Make example_dbl_all_null))"
    by (simp add: Let_def Make_def null_count_ca_def null_count_def IsNull_def length_ca_def
        valid_values_def GetValues_def aggregate_example_defs INT32_MIN_def INT32_MAX_def
        upt_rec [of _ "numeral _"] upt_rec [of _ "Suc _"])
  note h5 = h3 [THEN conjunct2]
  note h6 = h4 [THEN conjunct2]
  have e1: "Sum_INTSXP example_doubles (Make example_1_na_3) True = ScalarInteger 4"
    by (simp add: Sum_INTSXP_def sum_kernel_int32_def Let_def Make_def null_count_ca_def null_count_def IsNull_def length_ca_def
        valid_values_def GetValues_def aggregate_example_defs INT32_MIN_def INT32_MAX_def
        upt_rec [of _ "numeral _"] upt_rec [of _ "Suc _"])
  have e2: "MinMax_INTSXP example_doubles True (Make example_1_na_3) True = ScalarInteger 1"
    by (simp add: MinMax_INTSXP_def min_max_kernel_int32_def Let_def Make_def null_count_ca_def null_count_def IsNull_def length_ca_def
        valid_values_def GetValues_def aggregate_example_defs INT32_MIN_def INT32_MAX_def
        upt_rec [of _ "numeral _"] upt_rec [of _ "Suc _"])
  have e3: "MinMax_INTSXP example_doubles False (Make example_1_na_3) True = ScalarInteger 3"
    by (simp add: MinMax_INTSXP_def min_max_kernel_int32_def Let_def Make_def null_count_ca_def null_count_def IsNull_def length_ca_def
        valid_values_def GetValues_def aggregate_example_defs INT32_MIN_def INT32_MAX_def
        upt_rec [of _ "numeral _"] upt_rec [of _ "Suc _"])
  note c2 = conjunct2
  note A1 = T [THEN conjunct1, THEN mp, OF h1]
  note A2 = T [THEN c2, THEN conjunct1, THEN mp, OF h2]
  note B1 = T [THEN c2, THEN c2, THEN conjunct1, THEN mp, OF h3]
  note B2 = T [THEN c2, THEN c2, THEN c2, THEN conjunct1, THEN mp, OF h4]
  note C1 = T [THEN c2, THEN c2, THEN c2, THEN c2, THEN conjunct1, THEN mp, OF h5]
  note C2 = T [THEN c2, THEN c2, THEN c2, THEN c2, THEN c2, THEN conjunct1, THEN mp, OF h6]
  show ?thesis
    by (intro conjI h1 h2 h3 h4 A1 A2 B1 B2 C1 C2 e1 e2 e3)
qed

lemma fold_sum_int64:
  "fold (\<lambda>v acc. acc + scast v) vs (a :: 64 word)
     = a + word_of_int (sum_list (map sint (vs :: 32 word list)))"
  by (induction vs arbitrary: a) (simp_all add: add.assoc)

lemma sum_kernel_exact:
  assumes "- 9223372036854775808 \<le> exact_sum ca" and "exact_sum ca < 9223372036854775808"
  shows "sint (sum_kernel_int32 ca) = exact_sum ca"
  using assms
  by (simp add: sum_kernel_int32_def fold_sum_int64 exact_sum_def sint_sbintrunc'
      signed_take_bit_int_eq_self)

text \<open>
  The number of bits of a natural number, and the conversion to double: an integer of
  magnitude at most \<open>2^53\<close> is converted exactly, and every integer within a relative
  error of \<open>2^-53\<close>.
\<close>

lemma bit_length_0 [simp]: "bit_length 0 = 0"
  by (simp add: bit_length.simps)

lemma bit_length_le: "n < 2 ^ k \<Longrightarrow> bit_length n \<le> k"
proof (induction k arbitrary: n)
  case 0
  then show ?case by simp
next
  case (Suc k)
  show ?case
  proof (cases "n = 0")
    case True
    then show ?thesis by simp
  next
    case False
    from Suc.prems have "n div 2 < 2 ^ k" by simp
    from Suc.IH [OF this] False show ?thesis
      by (subst bit_length.simps) simp
  qed
qed

lemma bit_length_ge: "2 ^ k \<le> n \<Longrightarrow> k < bit_length n"
proof (induction k arbitrary: n)
  case 0
  then show ?case by (subst bit_length.simps) simp
next
  case (Suc k)
  from Suc.prems have "2 ^ k \<le> n div 2" by simp
  moreover have "0 < (2::nat) ^ Suc k" by simp
  with Suc.prems have "n \<noteq> 0" by linarith
  ultimately have "2 ^ k \<le> n div 2" "n \<noteq> 0" by simp_all
  from Suc.IH [OF this(1)] this(2) show ?case
    by (subst bit_length.simps) simp
qed

lemma bit_length_eq: "2 ^ k \<le> n \<Longrightarrow> n < 2 ^ Suc k \<Longrightarrow> bit_length n = Suc k"
  using bit_length_le [of n "Suc k"] bit_length_ge [of k n] by simp

lemma round_binary64_exact:
  assumes "\<bar>v\<bar> \<le> 9007199254740992"
  shows "round_binary64 v = v"
proof (cases "\<bar>v\<bar> = 9007199254740992")
  case True
  then have m: "nat \<bar>v\<bar> = 2 ^ 53" by simp
  have "bit_length (2 ^ 53) = Suc 53"
    by (rule bit_length_eq) simp_all
  with m have "round_binary64 v = sgn v * 9007199254740992"
    by (simp add: round_binary64_def Let_def)
  with True show ?thesis
    by (simp add: sgn_if abs_if split: if_splits)
next
  case False
  with assms have "nat \<bar>v\<bar> < 2 ^ 53" by simp
  from bit_length_le [OF this] show ?thesis
    by (simp add: round_binary64_def Let_def sgn_if)
qed

lemma valid_values_constant_chunk:
  "valid_values \<lparr>chunks = [constant_chunk n v], ca_type = t\<rparr> = replicate n v"
  by (simp add: valid_values_def constant_chunk_def IsNull_def GetValues_def
      list_eq_iff_nth_eq)

lemma exact_sum_constant_chunk:
  "exact_sum \<lparr>chunks = [constant_chunk n v], ca_type = t\<rparr> = int n * sint v"
  by (simp add: exact_sum_def valid_values_constant_chunk sum_list_replicate)

lemma null_count_constant_chunk:
  "null_count_ca \<lparr>chunks = [constant_chunk n v], ca_type = t\<rparr> = 0"
  by (simp add: null_count_ca_def null_count_def constant_chunk_def IsNull_def)

lemma sum_kernel_wraps:
  "sint (sum_kernel_int32 ca) = signed_take_bit 63 (exact_sum ca)"
  by (simp add: sum_kernel_int32_def fold_sum_int64 exact_sum_def sint_sbintrunc')

lemma bit_length_lower: "n \<noteq> 0 \<Longrightarrow> 2 ^ (bit_length n - 1) \<le> n"
proof (induction n rule: bit_length.induct)
  case (1 n)
  show ?case
  proof (cases "n div 2 = 0")
    case True
    with "1.prems" show ?thesis
      by (subst bit_length.simps) simp
  next
    case False
    with "1.IH" "1.prems" have ih: "2 ^ (bit_length (n div 2) - 1) \<le> n div 2" by simp
    from False have "bit_length (n div 2) \<noteq> 0"
      by (subst bit_length.simps) simp
    then have "(2::nat) ^ bit_length (n div 2) = 2 * 2 ^ (bit_length (n div 2) - 1)"
      by (cases "bit_length (n div 2)") simp_all
    with ih have "(2::nat) ^ bit_length (n div 2) \<le> 2 * (n div 2)" by simp
    also have "\<dots> \<le> n" by simp
    finally show ?thesis
      using "1.prems" by (subst bit_length.simps) simp
  qed
qed

lemma round_binary64_error: "\<bar>round_binary64 v - v\<bar> * 9007199254740992 \<le> \<bar>v\<bar>"
proof -
  define m where "m = nat \<bar>v\<bar>"
  define e where "e = bit_length m - 53"
  define q where "q = m div 2 ^ e"
  define lost where "lost = m mod 2 ^ e"
  define q' where "q' = (if 2 ^ e < 2 * lost \<or> (2 * lost = 2 ^ e \<and> odd q) then q + 1 else q)"
  have r: "round_binary64 v = sgn v * int (q' * 2 ^ e)"
    by (simp add: round_binary64_def Let_def m_def e_def q_def lost_def q'_def)
  have v: "v = sgn v * int m"
    by (simp add: m_def sgn_if)
  have "m = q * 2 ^ e + lost"
    unfolding q_def lost_def by (rule div_mult_mod_eq [symmetric])
  from arg_cong [OF this, of int] have m: "int m = int q * 2 ^ e + int lost"
    by simp
  have lost: "lost < 2 ^ e"
    by (simp add: lost_def)
  from lost have "int lost < int (2 ^ e)" by (simp only: of_nat_less_iff)
  then have ilost: "int lost < 2 ^ e" by simp
  have half: "2 * \<bar>int (q' * 2 ^ e) - int m\<bar> \<le> 2 ^ e"
  proof (cases "2 ^ e < 2 * lost \<or> (2 * lost = 2 ^ e \<and> odd q)")
    case True
    then have "q' = q + 1" by (simp add: q'_def)
    then have d: "int (q' * 2 ^ e) - int m = 2 ^ e - int lost"
      by (simp add: m algebra_simps)
    from True have "2 ^ e \<le> 2 * lost" by auto
    then have "int (2 ^ e) \<le> int (2 * lost)" by (simp only: of_nat_le_iff)
    then have "2 ^ e \<le> 2 * int lost" by simp
    with d ilost show ?thesis by simp
  next
    case False
    then have "q' = q" by (simp add: q'_def)
    then have d: "int (q' * 2 ^ e) - int m = - int lost"
      by (simp add: m algebra_simps)
    from False have "2 * lost \<le> 2 ^ e" by auto
    then have "int (2 * lost) \<le> int (2 ^ e)" by (simp only: of_nat_le_iff)
    then have "2 * int lost \<le> 2 ^ e" by simp
    with d show ?thesis by simp
  qed
  have err: "\<bar>round_binary64 v - v\<bar> = \<bar>int (q' * 2 ^ e) - int m\<bar>"
  proof -
    have "round_binary64 v - v = sgn v * (int (q' * 2 ^ e) - int m)"
      using r v by (simp add: algebra_simps)
    moreover have "v = 0 \<Longrightarrow> int (q' * 2 ^ e) - int m = 0"
      by (simp add: q'_def q_def lost_def m_def e_def)
    ultimately show ?thesis
      by (cases "v = 0") (simp_all add: abs_mult abs_sgn_eq)
  qed
  show ?thesis
  proof (cases "e = 0")
    case True
    then have "lost = 0" "q = m" by (simp_all add: lost_def q_def)
    with True have "q' * 2 ^ e = m" by (simp add: q'_def)
    with err show ?thesis by simp
  next
    case False
    then have e: "bit_length m - 1 = e + 52" and "m \<noteq> 0"
      by (auto simp: e_def intro: ccontr)
    from bit_length_lower [OF this(2)] e have "2 ^ (e + 52) \<le> m" by simp
    then have "int (2 ^ (e + 52)) \<le> int m" by (simp only: of_nat_le_iff)
    then have "2 ^ (e + 52) \<le> int m" by simp
    then have "2 ^ e * 4503599627370496 \<le> int m"
      by (simp add: power_add)
    with half have "\<bar>int (q' * 2 ^ e) - int m\<bar> * 9007199254740992 \<le> int m"
      by linarith
    with err show ?thesis by (simp add: m_def)
  qed
qed

text \<open>
  C5, as amended. The sum of an int32 array is accumulated in 64 bits. When nulls are
  skipped or absent and the exact sum fits the 64-bit accumulator, the accumulated value
  is the exact sum, and \<open>Sum\<close> returns it as an R integer exactly when
  \<^verbatim>\<open>INT32_MIN\<close> < sum \<open>\<le>\<close> \<^verbatim>\<open>INT32_MAX\<close>, never a wrapped integer; otherwise it returns
  the double that \<^verbatim>\<open>static_cast<double>\<close> gives for the exact sum, which is the exact
  sum whenever its magnitude is at most \<open>2^53\<close>, and is within a relative error of
  \<open>2^-53\<close> of it in every case. \<^verbatim>\<open>INT32_MIN\<close> itself, which is R's \<^verbatim>\<open>NA_integer_\<close>, is
  returned as a double. The conversion of the double operations is the one of the
  source, \<open>static_cast_double\<close>.
\<close>

theorem Sum_INTSXP_promotion:
  assumes "narm \<or> null_count_ca (data1 alt) = 0"
    and "- 9223372036854775808 \<le> exact_sum (data1 alt)"
    and "exact_sum (data1 alt) < 9223372036854775808"
    and "double_of_int64 d = static_cast_double"
  shows "sint (sum_kernel_int32 (data1 alt)) = exact_sum (data1 alt)
    \<and> Sum_INTSXP d alt narm =
      (if INT32_MIN < exact_sum (data1 alt) \<and> exact_sum (data1 alt) \<le> INT32_MAX
       then ScalarInteger (word_of_int (exact_sum (data1 alt)))
       else ScalarReal (Fin (round_binary64 (exact_sum (data1 alt)))))
    \<and> (INT32_MIN < exact_sum (data1 alt) \<and> exact_sum (data1 alt) \<le> INT32_MAX \<longrightarrow>
         sint (word_of_int (exact_sum (data1 alt)) :: 32 word) = exact_sum (data1 alt))
    \<and> (\<bar>exact_sum (data1 alt)\<bar> \<le> 9007199254740992 \<longrightarrow>
         round_binary64 (exact_sum (data1 alt)) = exact_sum (data1 alt))
    \<and> \<bar>round_binary64 (exact_sum (data1 alt)) - exact_sum (data1 alt)\<bar> * 9007199254740992
         \<le> \<bar>exact_sum (data1 alt)\<bar>"
proof -
  have k: "sint (sum_kernel_int32 (data1 alt)) = exact_sum (data1 alt)"
    using assms(2,3) by (rule sum_kernel_exact)
  with assms(1,4) have s: "Sum_INTSXP d alt narm =
      (if INT32_MIN < exact_sum (data1 alt) \<and> exact_sum (data1 alt) \<le> INT32_MAX
       then ScalarInteger (word_of_int (exact_sum (data1 alt)))
       else ScalarReal (Fin (round_binary64 (exact_sum (data1 alt)))))"
    by (auto simp: Sum_INTSXP_def Let_def static_cast_double_def)
  have i: "INT32_MIN < exact_sum (data1 alt) \<and> exact_sum (data1 alt) \<le> INT32_MAX \<longrightarrow>
         sint (word_of_int (exact_sum (data1 alt)) :: 32 word) = exact_sum (data1 alt)"
    by (simp add: INT32_MIN_def INT32_MAX_def sint_sbintrunc' signed_take_bit_int_eq_self)
  have e: "\<bar>exact_sum (data1 alt)\<bar> \<le> 9007199254740992 \<longrightarrow>
         round_binary64 (exact_sum (data1 alt)) = exact_sum (data1 alt)"
    by (simp add: round_binary64_exact)
  show ?thesis
    by (intro conjI k s i e round_binary64_error)
qed

theorem Sum_INTSXP_promotion_witness:
  "((True \<or> null_count_ca (data1 (Make example_overflow)) = 0)
      \<and> - 9223372036854775808 \<le> exact_sum (data1 (Make example_overflow))
      \<and> exact_sum (data1 (Make example_overflow)) < 9223372036854775808
      \<and> double_of_int64 example_doubles = static_cast_double)
   \<and> exact_sum (data1 (Make example_overflow)) = 4294967294
   \<and> sint (sum_kernel_int32 (data1 (Make example_overflow))) = 4294967294
   \<and> Sum_INTSXP example_doubles (Make example_overflow) True = ScalarReal (Fin 4294967294)
   \<and> ((True \<or> null_count_ca (data1 (Make example_1_na_3)) = 0)
      \<and> - 9223372036854775808 \<le> exact_sum (data1 (Make example_1_na_3))
      \<and> exact_sum (data1 (Make example_1_na_3)) < 9223372036854775808)
   \<and> exact_sum (data1 (Make example_1_na_3)) = 4
   \<and> Sum_INTSXP example_doubles (Make example_1_na_3) True = ScalarInteger 4
   \<and> sint (4 :: 32 word) = 4"
proof -
  have e1: "exact_sum (data1 (Make example_overflow)) = 4294967294"
    by (simp add: exact_sum_def Make_def IsNull_def valid_values_def GetValues_def
        aggregate_example_defs upt_rec [of _ "numeral _"] upt_rec [of _ "Suc _"])
  have e2: "exact_sum (data1 (Make example_1_na_3)) = 4"
    by (simp add: exact_sum_def Make_def IsNull_def valid_values_def GetValues_def
        aggregate_example_defs upt_rec [of _ "numeral _"] upt_rec [of _ "Suc _"])
  have d: "double_of_int64 example_doubles = static_cast_double"
    by (simp add: example_doubles_def)
  have h1: "True \<or> null_count_ca (data1 (Make example_overflow)) = 0" by simp
  have h2: "True \<or> null_count_ca (data1 (Make example_1_na_3)) = 0" by simp
  have b1: "- 9223372036854775808 \<le> exact_sum (data1 (Make example_overflow))"
    and b2: "exact_sum (data1 (Make example_overflow)) < 9223372036854775808"
    by (simp_all add: e1)
  have b3: "- 9223372036854775808 \<le> exact_sum (data1 (Make example_1_na_3))"
    and b4: "exact_sum (data1 (Make example_1_na_3)) < 9223372036854775808"
    by (simp_all add: e2)
  note T1 = Sum_INTSXP_promotion [OF h1 b1 b2 d]
  note T2 = Sum_INTSXP_promotion [OF h2 b3 b4 d]
  have r: "round_binary64 4294967294 = 4294967294"
    using T1 [THEN conjunct2, THEN conjunct2, THEN conjunct2, THEN conjunct1] by (simp add: e1)
  have k: "sint (sum_kernel_int32 (data1 (Make example_overflow))) = 4294967294"
    using T1 [THEN conjunct1] by (simp add: e1)
  have s1: "Sum_INTSXP example_doubles (Make example_overflow) True = ScalarReal (Fin 4294967294)"
    using T1 [THEN conjunct2, THEN conjunct1] r
    by (simp add: e1 INT32_MIN_def INT32_MAX_def)
  have s2: "Sum_INTSXP example_doubles (Make example_1_na_3) True = ScalarInteger 4"
    using T2 [THEN conjunct2, THEN conjunct1]
    by (simp add: e2 INT32_MIN_def INT32_MAX_def)
  have w: "sint (4 :: 32 word) = 4"
    using T2 [THEN conjunct2, THEN conjunct2, THEN conjunct1]
    by (simp add: e2 INT32_MIN_def INT32_MAX_def)
  show ?thesis
    by (intro conjI h1 h2 b1 b2 b3 b4 d e1 e2 k s1 s2 w)
qed

text \<open>
  C5, as stated, fails at three inputs. The two values \<open>-2147483647\<close> and \<open>-1\<close> sum to
  \<open>-2147483648\<close>, which is in the range of a 32-bit signed integer, and \<open>Sum\<close> returns
  it as a double. The value \<open>2147483647\<close> taken \<open>4194305\<close> times sums to
  \<open>9007201398030335\<close>, and \<open>Sum\<close> returns the double \<open>9007201398030336\<close>, which is not
  the exact sum. The value \<open>-2147483648\<close> taken \<open>2^33\<close> times sums to \<open>- 2^64\<close>, which
  the 64-bit accumulator holds as \<open>0\<close>, and \<open>Sum\<close> returns the integer \<open>0\<close>.
\<close>

theorem Sum_INTSXP_exact_sum_counterexample:
  "exact_sum (data1 (Make example_int_min)) = - 2147483648
   \<and> INT32_MIN \<le> exact_sum (data1 (Make example_int_min))
   \<and> exact_sum (data1 (Make example_int_min)) \<le> INT32_MAX
   \<and> Sum_INTSXP example_doubles (Make example_int_min) True = ScalarReal (Fin (- 2147483648))
   \<and> exact_sum (data1 (Make example_rounded)) = 9007201398030335
   \<and> Sum_INTSXP example_doubles (Make example_rounded) True = ScalarReal (Fin 9007201398030336)
   \<and> exact_sum (data1 (Make example_wrapped)) = - 18446744073709551616
   \<and> Sum_INTSXP example_doubles (Make example_wrapped) True = ScalarInteger 0"
proof -
  have a1: "exact_sum (data1 (Make example_int_min)) = - 2147483648"
    by (simp add: exact_sum_def Make_def IsNull_def valid_values_def GetValues_def
        aggregate_example_defs upt_rec [of _ "numeral _"] upt_rec [of _ "Suc _"])
  have a2: "Sum_INTSXP example_doubles (Make example_int_min) True
      = ScalarReal (Fin (- 2147483648))"
  proof -
    have "round_binary64 (- 2147483648) = - 2147483648"
      by (rule round_binary64_exact) simp
    moreover have "sint (sum_kernel_int32 (data1 (Make example_int_min))) = - 2147483648"
      using sum_kernel_exact [of "data1 (Make example_int_min)"] by (simp add: a1)
    ultimately show ?thesis
      by (simp add: Sum_INTSXP_def Let_def INT32_MIN_def INT32_MAX_def example_doubles_def
          static_cast_double_def)
  qed
  have b1: "exact_sum (data1 (Make example_rounded)) = 9007201398030335"
    by (simp add: Make_def example_rounded_def exact_sum_constant_chunk)
  have b2: "Sum_INTSXP example_doubles (Make example_rounded) True
      = ScalarReal (Fin 9007201398030336)"
  proof -
    have "bit_length 9007201398030335 = Suc 53"
      by (rule bit_length_eq) simp_all
    then have "round_binary64 9007201398030335 = 9007201398030336"
      by (simp add: round_binary64_def Let_def)
    moreover have "sint (sum_kernel_int32 (data1 (Make example_rounded))) = 9007201398030335"
      using sum_kernel_exact [of "data1 (Make example_rounded)"] by (simp add: b1)
    ultimately show ?thesis
      by (simp add: Sum_INTSXP_def Let_def INT32_MIN_def INT32_MAX_def example_doubles_def
          static_cast_double_def)
  qed
  have c1: "exact_sum (data1 (Make example_wrapped)) = - 18446744073709551616"
    by (simp add: Make_def example_wrapped_def exact_sum_constant_chunk)
  have c2: "Sum_INTSXP example_doubles (Make example_wrapped) True = ScalarInteger 0"
  proof -
    have "signed_take_bit 63 (- 18446744073709551616 :: int) = 0"
      by (simp add: signed_take_bit_eq_take_bit_shift take_bit_eq_mod)
    with sum_kernel_wraps [of "data1 (Make example_wrapped)"]
    have "sint (sum_kernel_int32 (data1 (Make example_wrapped))) = 0"
      by (simp add: c1)
    then show ?thesis
      by (simp add: Sum_INTSXP_def Let_def INT32_MIN_def INT32_MAX_def)
  qed
  show ?thesis
    by (intro conjI a1 a2 b1 b2 c1 c2) (simp_all add: a1 INT32_MIN_def INT32_MAX_def)
qed

section \<open>Properties of the string class\<close>

lemma strip_step_inv:
  assumes inv: "strip_inv view s0 n st" and n: "n < length view"
  shows "strip_inv view s0 (Suc n) (strip_step view n st)"
proof -
  obtain stripped stripped_len nul_count where st: "st = (stripped, stripped_len, nul_count)"
    by (cases st)
  from n have tk: "take (Suc n) view = take n view @ [view ! n]"
    by (rule take_Suc_conv_app_nth)
  show ?thesis
  proof (cases "CHR 0x00 \<in> set (take n view)")
    case True
    with inv st have *: "nul_count > 0" "length stripped = length view" "stripped_len < n"
        "take stripped_len stripped = strip_nuls (take n view)"
      by (simp_all add: strip_inv_def)
    from *(2,3) n have lt: "stripped_len < length stripped" by simp
    show ?thesis
    proof (cases "view ! n = CHR 0x00")
      case nul: True
      with True * st tk show ?thesis
        by (simp add: strip_inv_def strip_step_def strip_nuls_def)
    next
      case False
      from lt have "take (Suc stripped_len) (stripped[stripped_len := view ! n])
          = take stripped_len stripped @ [view ! n]"
        by (simp add: take_Suc_conv_app_nth)
      with False True * st tk show ?thesis
        by (simp add: strip_inv_def strip_step_def strip_nuls_def)
    qed
  next
    case False
    with inv st have *: "nul_count = 0" "stripped = s0" "stripped_len = 0"
      by (simp_all add: strip_inv_def)
    from False have id: "strip_nuls (take n view) = take n view"
      by (auto simp: strip_nuls_def filter_id_conv)
    show ?thesis
    proof (cases "view ! n = CHR 0x00")
      case nul: True
      with False * st tk id n show ?thesis
        by (simp add: strip_inv_def strip_step_def strip_nuls_def)
    next
      case notnul: False
      with False * st tk show ?thesis
        by (simp add: strip_inv_def strip_step_def)
    qed
  qed
qed

lemma strip_fold_inv:
  "n \<le> length view \<Longrightarrow>
   strip_inv view s0 n (fold (strip_step view) [0..<n] (s0, 0, 0))"
proof (induction n)
  case 0
  then show ?case by (simp add: strip_inv_def)
next
  case (Suc n)
  then have "strip_inv view s0 n (fold (strip_step view) [0..<n] (s0, 0, 0))" and "n < length view"
    by simp_all
  from strip_step_inv [OF this] show ?case by simp
qed

lemma ConvertStripNul_strips:
  assumes "CHR 0x00 \<in> set view"
  shows "fst (ConvertStripNul v view) = CHARSXP (strip_nuls view)
    \<and> nul_was_stripped (snd (ConvertStripNul v view))
    \<and> strip_out_nuls (snd (ConvertStripNul v view)) = strip_out_nuls v"
proof -
  obtain stripped stripped_len nul_count where
    f: "fold (strip_step view) [0..<length view] (stripped_string v, 0, 0)
          = (stripped, stripped_len, nul_count)"
    by (cases "fold (strip_step view) [0..<length view] (stripped_string v, 0, 0)")
  from strip_fold_inv [of "length view" view "stripped_string v"] f assms
  have "take stripped_len stripped = strip_nuls view"
    by (simp add: strip_inv_def)
  with f show ?thesis
    by (simp add: ConvertStripNul_def)
qed

lemma strip_nuls_id: "CHR 0x00 \<notin> set view \<Longrightarrow> strip_nuls view = view"
  by (auto simp: strip_nuls_def filter_id_conv)

lemma Convert_ok:
  assumes "strip_out_nuls v \<or> \<not> has_nul a j"
  shows "\<exists>v'. Convert v a j = Inr (string_elem a j, v')
     \<and> strip_out_nuls v' = strip_out_nuls v
     \<and> nul_was_stripped v' = (nul_was_stripped v \<or> has_nul a j)"
proof (cases "has_nul a j")
  case True
  with assms have strip: "strip_out_nuls v" by simp
  from True have nn: "\<not> IsNull a j" and nul: "CHR 0x00 \<in> set (GetValues a j)"
    by (simp_all add: has_nul_def)
  from ConvertStripNul_strips [OF nul, of v]
  have "ConvertStripNul v (GetValues a j)
      = (CHARSXP (strip_nuls (GetValues a j)), snd (ConvertStripNul v (GetValues a j)))"
    and "nul_was_stripped (snd (ConvertStripNul v (GetValues a j)))"
    and "strip_out_nuls (snd (ConvertStripNul v (GetValues a j))) = strip_out_nuls v"
    by (simp_all add: prod_eq_iff)
  with True nn nul strip show ?thesis
    by (intro exI [of _ "snd (ConvertStripNul v (GetValues a j))"])
       (simp add: Convert_def string_elem_def Let_def)
next
  case False
  then show ?thesis
    by (auto simp: Convert_def string_elem_def has_nul_def Let_def strip_nuls_id)
qed

lemma Convert_error:
  assumes "\<not> strip_out_nuls v" and "has_nul a j"
  shows "Convert v a j = Inl (Error_text (GetValues a j))"
  using assms by (simp add: Convert_def has_nul_def Let_def)

lemma write_buf_update:
  "i < length vec \<Longrightarrow> write_buf (vec[i := y]) (Suc i) ys = write_buf vec i (y # ys)"
  by (simp add: write_buf_def take_Suc_conv_app_nth)

lemma SET_STRING_ELT_heap:
  "SET_STRING_ELT x i c (r\<lparr>heap := (heap r)[x := vec]\<rparr>)
     = r\<lparr>heap := (heap r)[x := ((heap r)[x := vec] ! x)[i := c]]\<rparr>"
  by (simp add: SET_STRING_ELT_def)

lemma convert_chunk_ok:
  assumes "\<forall>j \<in> set js. strip_out_nuls v \<or> \<not> has_nul a j"
    and "x < length (heap r)" and "i + length js \<le> length (heap r ! x)"
  shows "\<exists>v'. convert_chunk v a js i x r =
        Inr (v', i + length js,
             r\<lparr>heap := (heap r)[x := write_buf (heap r ! x) i (map (string_elem a) js)]\<rparr>)
     \<and> strip_out_nuls v' = strip_out_nuls v
     \<and> nul_was_stripped v' = (nul_was_stripped v \<or> list_ex (has_nul a) js)"
  using assms
proof (induction js arbitrary: v i r)
  case Nil
  then show ?case by (simp add: write_buf_def)
next
  case (Cons j js)
  from Cons.prems(1) have "strip_out_nuls v \<or> \<not> has_nul a j" by auto
  from Convert_ok [OF this] obtain v1 where
    c: "Convert v a j = Inr (string_elem a j, v1)"
    and s1: "strip_out_nuls v1 = strip_out_nuls v"
    and n1: "nul_was_stripped v1 = (nul_was_stripped v \<or> has_nul a j)"
    by blast
  let ?r1 = "SET_STRING_ELT x i (string_elem a j) r"
  from Cons.prems(2) have h1: "heap ?r1 ! x = (heap r ! x)[i := string_elem a j]"
    and l1: "x < length (heap ?r1)"
    by (simp_all add: SET_STRING_ELT_def)
  from Cons.prems(3) have i: "i < length (heap r ! x)" by simp
  from Cons.prems(1) s1 have ok1: "\<forall>j \<in> set js. strip_out_nuls v1 \<or> \<not> has_nul a j" by auto
  from Cons.prems(3) h1 have room: "Suc i + length js \<le> length (heap ?r1 ! x)" by simp
  from Cons.IH [OF ok1 l1 room] obtain v' where
    r: "convert_chunk v1 a js (Suc i) x ?r1 =
        Inr (v', Suc i + length js,
             ?r1\<lparr>heap := (heap ?r1)[x := write_buf (heap ?r1 ! x) (Suc i) (map (string_elem a) js)]\<rparr>)"
    and s': "strip_out_nuls v' = strip_out_nuls v1"
    and n': "nul_was_stripped v' = (nul_was_stripped v1 \<or> list_ex (has_nul a) js)"
    by blast
  have "?r1\<lparr>heap := (heap ?r1)[x := write_buf (heap ?r1 ! x) (Suc i) (map (string_elem a) js)]\<rparr>
      = r\<lparr>heap := (heap r)[x := write_buf (heap r ! x) i (map (string_elem a) (j # js))]\<rparr>"
    using h1 i by (simp add: SET_STRING_ELT_def write_buf_update)
  with c r s' n' s1 n1 show ?case by auto
qed

lemma convert_chunk_error:
  assumes "\<not> strip_out_nuls v" and "find (has_nul a) js = Some j0"
  shows "\<exists>vec. convert_chunk v a js i x r =
        Inl (Error_text (GetValues a j0), r\<lparr>heap := (heap r)[x := vec]\<rparr>)"
  using assms
proof (induction js arbitrary: v i r)
  case Nil
  then show ?case by simp
next
  case (Cons j js)
  show ?case
  proof (cases "has_nul a j")
    case True
    with Cons.prems have "j0 = j" by simp
    with True Cons.prems(1) have "convert_chunk v a (j # js) i x r
        = Inl (Error_text (GetValues a j0), r\<lparr>heap := (heap r)[x := heap r ! x]\<rparr>)"
      by (simp add: Convert_error)
    then show ?thesis by blast
  next
    case False
    then have "strip_out_nuls v \<or> \<not> has_nul a j" by simp
    from Convert_ok [OF this] obtain v1 where
      c: "Convert v a j = Inr (string_elem a j, v1)"
      and s1: "strip_out_nuls v1 = strip_out_nuls v"
      by blast
    from False Cons.prems(2) have f: "find (has_nul a) js = Some j0" by simp
    from s1 Cons.prems(1) have ns: "\<not> strip_out_nuls v1" by simp
    let ?r1 = "SET_STRING_ELT x i (string_elem a j) r"
    from Cons.IH [OF ns f, of "Suc i" ?r1] obtain vec where
      "convert_chunk v1 a js (Suc i) x ?r1 =
        Inl (Error_text (GetValues a j0), ?r1\<lparr>heap := (heap ?r1)[x := vec]\<rparr>)"
      by blast
    moreover have "?r1\<lparr>heap := (heap ?r1)[x := vec]\<rparr> = r\<lparr>heap := (heap r)[x := vec]\<rparr>"
      by (simp add: SET_STRING_ELT_def)
    ultimately show ?thesis using c by auto
  qed
qed

lemma convert_chunk_ok_frame:
  assumes "\<forall>j \<in> set js. strip_out_nuls v \<or> \<not> has_nul a j"
  shows "\<exists>v' vec. convert_chunk v a js i x r =
        Inr (v', i + length js, r\<lparr>heap := (heap r)[x := vec]\<rparr>)
     \<and> strip_out_nuls v' = strip_out_nuls v"
  using assms
proof (induction js arbitrary: v i r)
  case Nil
  have "r = r\<lparr>heap := (heap r)[x := heap r ! x]\<rparr>" by simp
  then show ?case by (metis add.right_neutral convert_chunk.simps(1) list.size(3))
next
  case (Cons j js)
  from Cons.prems have "strip_out_nuls v \<or> \<not> has_nul a j" by auto
  from Convert_ok [OF this] obtain v1 where
    c: "Convert v a j = Inr (string_elem a j, v1)"
    and s1: "strip_out_nuls v1 = strip_out_nuls v"
    by blast
  let ?r1 = "SET_STRING_ELT x i (string_elem a j) r"
  from Cons.prems s1 have ok1: "\<forall>j \<in> set js. strip_out_nuls v1 \<or> \<not> has_nul a j" by auto
  from Cons.IH [OF ok1, of "Suc i" ?r1] obtain v' vec where
    r: "convert_chunk v1 a js (Suc i) x ?r1 =
        Inr (v', Suc i + length js, ?r1\<lparr>heap := (heap ?r1)[x := vec]\<rparr>)"
    and s': "strip_out_nuls v' = strip_out_nuls v1"
    by blast
  have "?r1\<lparr>heap := (heap ?r1)[x := vec]\<rparr> = r\<lparr>heap := (heap r)[x := vec]\<rparr>"
    by (simp add: SET_STRING_ELT_def)
  with c r s' s1 show ?case by auto
qed

lemma write_buf_append:
  "i + length ys + length zs \<le> length vec \<Longrightarrow>
   write_buf (write_buf vec i ys) (i + length ys) zs = write_buf vec i (ys @ zs)"
  by (simp add: write_buf_def ac_simps)

lemma length_write_buf: "i + length ys \<le> length vec \<Longrightarrow> length (write_buf vec i ys) = length vec"
  by (simp add: write_buf_def)

lemma convert_chunks_ok:
  assumes "\<forall>a \<in> set cs. \<forall>j \<in> set [0..<arr_length a]. strip_out_nuls v \<or> \<not> has_nul a j"
    and "x < length (heap r)" and "i + sum_list (map arr_length cs) \<le> length (heap r ! x)"
  shows "\<exists>v'. convert_chunks v cs i x r =
        Inr (v', r\<lparr>heap := (heap r)[x := write_buf (heap r ! x) i
               (concat (map (\<lambda>a. map (string_elem a) [0..<arr_length a]) cs))]\<rparr>)
     \<and> strip_out_nuls v' = strip_out_nuls v
     \<and> nul_was_stripped v' =
         (nul_was_stripped v \<or> list_ex (\<lambda>a. list_ex (has_nul a) [0..<arr_length a]) cs)"
  using assms
proof (induction cs arbitrary: v i r)
  case Nil
  then show ?case by (simp add: write_buf_def)
next
  case (Cons a cs)
  let ?js = "[0..<arr_length a]"
  let ?ys = "map (string_elem a) ?js"
  let ?zs = "concat (map (\<lambda>a. map (string_elem a) [0..<arr_length a]) cs)"
  let ?vec = "heap r ! x"
  have lz: "length ?zs = sum_list (map arr_length cs)"
    by (induction cs) simp_all
  from Cons.prems(1) have oka: "\<forall>j \<in> set ?js. strip_out_nuls v \<or> \<not> has_nul a j" by auto
  from Cons.prems(3) have rooma: "i + length ?js \<le> length ?vec" by simp
  from convert_chunk_ok [OF oka Cons.prems(2) rooma] obtain v1 where
    c: "convert_chunk v a ?js i x r =
        Inr (v1, i + length ?js, r\<lparr>heap := (heap r)[x := write_buf ?vec i ?ys]\<rparr>)"
    and s1: "strip_out_nuls v1 = strip_out_nuls v"
    and n1: "nul_was_stripped v1 = (nul_was_stripped v \<or> list_ex (has_nul a) ?js)"
    by blast
  let ?r1 = "r\<lparr>heap := (heap r)[x := write_buf ?vec i ?ys]\<rparr>"
  from Cons.prems(2) have h1: "heap ?r1 ! x = write_buf ?vec i ?ys"
    and l1: "x < length (heap ?r1)"
    by simp_all
  from Cons.prems(1) s1
  have ok1: "\<forall>a \<in> set cs. \<forall>j \<in> set [0..<arr_length a]. strip_out_nuls v1 \<or> \<not> has_nul a j"
    by auto
  from rooma have lw: "length (write_buf ?vec i ?ys) = length ?vec"
    by (simp add: length_write_buf)
  with Cons.prems(3) h1
  have room1: "i + length ?js + sum_list (map arr_length cs) \<le> length (heap ?r1 ! x)"
    by (simp add: add.assoc)
  from Cons.IH [OF ok1 l1 room1] obtain v' where
    r: "convert_chunks v1 cs (i + length ?js) x ?r1 =
        Inr (v', ?r1\<lparr>heap := (heap ?r1)[x := write_buf (heap ?r1 ! x) (i + length ?js) ?zs]\<rparr>)"
    and s': "strip_out_nuls v' = strip_out_nuls v1"
    and n': "nul_was_stripped v' =
         (nul_was_stripped v1 \<or> list_ex (\<lambda>a. list_ex (has_nul a) [0..<arr_length a]) cs)"
    by blast
  from Cons.prems(3) lz have "i + length ?ys + length ?zs \<le> length ?vec"
    by (simp add: add.assoc)
  from write_buf_append [OF this]
  have "write_buf (write_buf ?vec i ?ys) (i + length ?js) ?zs = write_buf ?vec i (?ys @ ?zs)"
    by simp
  with h1 have "?r1\<lparr>heap := (heap ?r1)[x := write_buf (heap ?r1 ! x) (i + length ?js) ?zs]\<rparr>
      = r\<lparr>heap := (heap r)[x := write_buf ?vec i (?ys @ ?zs)]\<rparr>"
    by simp
  with c r s' n' s1 n1 show ?case by auto
qed

lemma convert_chunks_error:
  assumes "\<not> strip_out_nuls v" and "first_nul cs = Some view"
  shows "\<exists>vec. convert_chunks v cs i x r =
        Inl (Error_text view, r\<lparr>heap := (heap r)[x := vec]\<rparr>)"
  using assms
proof (induction cs arbitrary: v i r)
  case Nil
  then show ?case by simp
next
  case (Cons a cs)
  let ?js = "[0..<arr_length a]"
  show ?case
  proof (cases "find (has_nul a) ?js")
    case (Some j0)
    with Cons.prems(2) have "view = GetValues a j0" by simp
    with convert_chunk_error [OF Cons.prems(1) Some, of i x r] show ?thesis
      by auto
  next
    case None
    then have "\<forall>j \<in> set ?js. strip_out_nuls v \<or> \<not> has_nul a j"
      by (auto simp: find_None_iff)
    from convert_chunk_ok_frame [OF this, of i x r] obtain v1 vec1 where
      c: "convert_chunk v a ?js i x r =
          Inr (v1, i + length ?js, r\<lparr>heap := (heap r)[x := vec1]\<rparr>)"
      and s1: "strip_out_nuls v1 = strip_out_nuls v"
      by blast
    let ?r1 = "r\<lparr>heap := (heap r)[x := vec1]\<rparr>"
    from s1 Cons.prems(1) have ns: "\<not> strip_out_nuls v1" by simp
    from None Cons.prems(2) have f: "first_nul cs = Some view" by simp
    from Cons.IH [OF ns f, of "i + length ?js" ?r1] obtain vec where
      "convert_chunks v1 cs (i + length ?js) x ?r1 =
        Inl (Error_text view, ?r1\<lparr>heap := (heap ?r1)[x := vec]\<rparr>)"
      by blast
    moreover have "?r1\<lparr>heap := (heap ?r1)[x := vec]\<rparr> = r\<lparr>heap := (heap r)[x := vec]\<rparr>"
      by simp
    ultimately show ?thesis using c by auto
  qed
qed

lemma find_Some_ex: "find P xs = Some x \<Longrightarrow> \<exists>x \<in> set xs. P x"
  by (induction xs) (auto split: if_splits)

lemma first_nul_None: "(first_nul cs = None) = (\<not> list_ex (\<lambda>a. list_ex (has_nul a) [0..<arr_length a]) cs)"
proof (induction cs)
  case Nil
  then show ?case by simp
next
  case (Cons a cs)
  show ?case
  proof (cases "find (has_nul a) [0..<arr_length a]")
    case None
    then have "\<not> list_ex (has_nul a) [0..<arr_length a]"
      by (simp add: find_None_iff list_ex_iff)
    with None Cons.IH show ?thesis by simp
  next
    case (Some j)
    from find_Some_ex [OF Some] have "list_ex (has_nul a) [0..<arr_length a]"
      by (simp add: list_ex_iff)
    with Some show ?thesis by simp
  qed
qed

lemma length_string_elems: "length (string_elems ca) = length_ca ca"
proof -
  have "length (concat (map (\<lambda>a. map (string_elem a) [0..<arr_length a]) cs))
      = sum_list (map arr_length cs)" for cs
    by (induction cs) simp_all
  then show ?thesis by (simp add: string_elems_def length_ca_def)
qed

lemma Materialize_string_ok:
  assumes none: "Representation alt = None" and ok: "skip_nul r \<or> \<not> any_nul (data1 alt)"
  shows "Materialize_string (alt, r) =
     Return (length (heap r))
       (alt\<lparr>data2 := Some (length (heap r))\<rparr>,
        r\<lparr>heap := heap r @ [string_elems (data1 alt)],
          warnings := warnings r @ (if any_nul (data1 alt) then [strip_warning] else [])\<rparr>)"
proof -
  let ?ca = "data1 alt"
  let ?n = "length_ca ?ca"
  let ?x = "length (heap r)"
  let ?r1 = "r\<lparr>heap := heap r @ [map (garbage r) [0..<?n]]\<rparr>"
  let ?v = "RStringViewer_init (options ?r1)"
  have sv: "strip_out_nuls ?v = skip_nul r" and nv: "\<not> nul_was_stripped ?v"
    by (simp_all add: RStringViewer_init_def skip_nul_def)
  from ok sv
  have ok': "\<forall>a \<in> set (chunks ?ca). \<forall>j \<in> set [0..<arr_length a]. strip_out_nuls ?v \<or> \<not> has_nul a j"
    by (auto simp: any_nul_def list_ex_iff)
  have x: "?x < length (heap ?r1)" by simp
  have room: "0 + sum_list (map arr_length (chunks ?ca)) \<le> length (heap ?r1 ! ?x)"
    by (simp add: length_ca_def)
  from convert_chunks_ok [OF ok' x room] obtain v' where
    c: "convert_chunks ?v (chunks ?ca) 0 ?x ?r1 =
        Inr (v', ?r1\<lparr>heap := (heap ?r1)[?x := write_buf (heap ?r1 ! ?x) 0 (string_elems ?ca)]\<rparr>)"
    and n': "nul_was_stripped v' = (nul_was_stripped ?v \<or> any_nul ?ca)"
    by (auto simp: string_elems_def any_nul_def)
  have "write_buf (heap ?r1 ! ?x) 0 (string_elems ?ca) = string_elems ?ca"
    by (simp add: write_buf_def length_string_elems)
  then have "?r1\<lparr>heap := (heap ?r1)[?x := write_buf (heap ?r1 ! ?x) 0 (string_elems ?ca)]\<rparr>
      = r\<lparr>heap := heap r @ [string_elems ?ca]\<rparr>"
    by simp
  with c have c': "convert_chunks ?v (chunks ?ca) 0 ?x ?r1
      = Inr (v', r\<lparr>heap := heap r @ [string_elems ?ca]\<rparr>)"
    by simp
  from n' nv have "nul_was_stripped v' = any_nul ?ca" by simp
  with none c' show ?thesis
    by (simp add: Materialize_string_def Rf_allocVector_def Let_def SetRepresentation_def
        cpp11_warning_def)
qed

lemma Materialize_string_error:
  assumes none: "Representation alt = None" and ns: "\<not> skip_nul r"
    and f: "first_nul (chunks (data1 alt)) = Some view"
  shows "\<exists>vec. Materialize_string (alt, r) =
     Rf_error (Error_text view) (alt, r\<lparr>heap := heap r @ [vec]\<rparr>)"
proof -
  let ?ca = "data1 alt"
  let ?n = "length_ca ?ca"
  let ?x = "length (heap r)"
  let ?r1 = "r\<lparr>heap := heap r @ [map (garbage r) [0..<?n]]\<rparr>"
  let ?v = "RStringViewer_init (options ?r1)"
  from ns have sv: "\<not> strip_out_nuls ?v"
    by (simp add: RStringViewer_init_def skip_nul_def)
  from convert_chunks_error [OF sv f, of 0 ?x ?r1] obtain vec where
    c: "convert_chunks ?v (chunks ?ca) 0 ?x ?r1 =
        Inl (Error_text view, ?r1\<lparr>heap := (heap ?r1)[?x := vec]\<rparr>)"
    by blast
  have "?r1\<lparr>heap := (heap ?r1)[?x := vec]\<rparr> = r\<lparr>heap := heap r @ [vec]\<rparr>"
    by simp
  with c none have "Materialize_string (alt, r) =
     Rf_error (Error_text view) (alt, r\<lparr>heap := heap r @ [vec]\<rparr>)"
    by (simp add: Materialize_string_def Rf_allocVector_def Let_def)
  then show ?thesis by blast
qed

lemma ArrayResolve_loop_slot:
  "i < sum_list (map arr_length cs) \<Longrightarrow>
   \<exists>a. array' (ArrayResolve_loop cs i k) = Some a \<and> a \<in> set cs
     \<and> index' (ArrayResolve_loop cs i k) < arr_length a
     \<and> f a (index' (ArrayResolve_loop cs i k))
         = concat (map (\<lambda>a. map (f a) [0..<arr_length a]) cs) ! i"
proof (induction cs arbitrary: i k)
  case Nil
  then show ?case by simp
next
  case (Cons c cs)
  show ?case
  proof (cases "i < arr_length c")
    case True
    then show ?thesis by (simp add: nth_append)
  next
    case False
    with Cons.prems have "i - arr_length c < sum_list (map arr_length cs)" by simp
    from Cons.IH [OF this, of "k + 1"] False show ?thesis
      by (auto simp: nth_append)
  qed
qed

lemma Elt_string_unmaterialized:
  assumes none: "Representation alt = None" and i: "i < Length alt"
  shows "\<exists>a j. a \<in> set (chunks (data1 alt)) \<and> j < arr_length a
     \<and> array' (ArrayResolve (data1 alt) i) = Some a \<and> index' (ArrayResolve (data1 alt) i) = j
     \<and> string_elem a j = string_elems (data1 alt) ! i
     \<and> Elt_string (alt, r) i =
         (if skip_nul r \<or> \<not> has_nul a j
          then Return (string_elem a j)
                 (alt, if has_nul a j then cpp11_warning strip_warning r else r)
          else Rf_error (Error_text (GetValues a j)) (alt, r))"
proof -
  let ?res = "ArrayResolve (data1 alt) i"
  let ?v = "RStringViewer_init (options r)"
  from i have "i < sum_list (map arr_length (chunks (data1 alt)))"
    by (simp add: Length_def length_ca_def)
  from ArrayResolve_loop_slot [OF this, of 0 string_elem]
  obtain a where a: "array' ?res = Some a" "a \<in> set (chunks (data1 alt))"
      "index' ?res < arr_length a"
      "string_elem a (index' ?res) = string_elems (data1 alt) ! i"
    by (auto simp: ArrayResolve_def string_elems_def)
  let ?j = "index' ?res"
  have sv: "strip_out_nuls ?v = skip_nul r" and nv: "\<not> nul_was_stripped ?v"
    by (simp_all add: RStringViewer_init_def skip_nul_def)
  have "Elt_string (alt, r) i =
         (if skip_nul r \<or> \<not> has_nul a ?j
          then Return (string_elem a ?j)
                 (alt, if has_nul a ?j then cpp11_warning strip_warning r else r)
          else Rf_error (Error_text (GetValues a ?j)) (alt, r))"
  proof (cases "skip_nul r \<or> \<not> has_nul a ?j")
    case True
    with sv have "strip_out_nuls ?v \<or> \<not> has_nul a ?j" by simp
    from Convert_ok [OF this] nv obtain v' where
      "Convert ?v a ?j = Inr (string_elem a ?j, v')" "nul_was_stripped v' = has_nul a ?j"
      by auto
    with True none a(1) show ?thesis
      by (simp add: Elt_string_def Let_def)
  next
    case False
    with sv have "\<not> strip_out_nuls ?v" "has_nul a ?j" by simp_all
    from Convert_error [OF this] False none a(1) show ?thesis
      by (simp add: Elt_string_def Let_def)
  qed
  with a show ?thesis by blast
qed

lemma no_nul_Error_text: "CHR 0x00 \<notin> set (Error_text view)"
  by (auto simp: Error_text_def)

text \<open>A format without a percent sign is its own message, and the text of \<open>Error\<close>
  has a percent sign only where the string has one.\<close>

lemma vsnprintf_no_percent: "CHR ''%'' \<notin> set format \<Longrightarrow> vsnprintf format = Some format"
  by (induction format rule: vsnprintf.induct) auto

lemma percent_Error_text: "(CHR ''%'' \<in> set (Error_text view)) = (CHR ''%'' \<in> set view)"
  by (auto simp: Error_text_def split: if_splits)

lemma Rf_error_Error_text:
  "CHR ''%'' \<notin> set view \<Longrightarrow> Rf_error (Error_text view) s = R_error (Error_text view) s"
  by (simp add: Rf_error_def vsnprintf_no_percent percent_Error_text)

text \<open>
  The policy of the string class for embedded nuls. With stripping disabled, converting a
  string that is not null and contains a nul byte calls \<open>Rf_error\<close> with the text of
  \<open>Error\<close> as the format: the string between quotes with every nul written as
  backslash-zero, and the name of the option \<^verbatim>\<open>arrow.skip_nul\<close>; the text itself holds
  no nul. With stripping enabled the conversion succeeds, the result is the string without
  its nul bytes, and the viewer records that a nul was stripped. An element read of an
  object that is not materialized then returns the stripped string and signals exactly
  one warning, and signals none when the string has no nul; with stripping disabled it
  ends in the call of \<open>Rf_error\<close> and signals nothing. A full materialization with
  stripping enabled succeeds and signals exactly one warning when some string had a nul
  and none otherwise; with stripping disabled and a nul somewhere it ends in the call of
  \<open>Rf_error\<close> for the first such string. When the string holds no percent sign, the
  message of the error is the text of \<open>Error\<close>.
\<close>

theorem embedded_nul_policy:
  "(\<not> IsNull a j \<and> CHR 0x00 \<in> set (GetValues a j) \<and> \<not> strip_out_nuls v1 \<longrightarrow>
      Convert v1 a j = Inl (Error_text (GetValues a j)))
   \<and> Error_text view =
        ''embedded nul in string: '' @ [CHR 0x27]
        @ concat (map (\<lambda>c. if c \<noteq> CHR 0x00 then [c] else [CHR 0x5C, CHR ''0'']) view)
        @ [CHR 0x27]
        @ ''; to strip nuls when converting from Arrow to R, set options(arrow.skip_nul = TRUE)''
   \<and> CHR 0x00 \<notin> set (Error_text view)
   \<and> (\<not> IsNull a j \<and> CHR 0x00 \<in> set (GetValues a j) \<and> strip_out_nuls v2 \<longrightarrow>
      (\<exists>v'. Convert v2 a j = Inr (CHARSXP (filter (\<lambda>c. c \<noteq> CHR 0x00) (GetValues a j)), v')
          \<and> nul_was_stripped v'))
   \<and> (\<not> IsMaterialized alt \<and> i < Length alt \<longrightarrow>
      (\<exists>b k. array' (ArrayResolve (data1 alt) i) = Some b \<and> index' (ArrayResolve (data1 alt) i) = k
         \<and> Elt_string (alt, r) i =
             (if has_nul b k
              then (if skip_nul r
                    then Return (CHARSXP (filter (\<lambda>c. c \<noteq> CHR 0x00) (GetValues b k)))
                           (alt, r\<lparr>warnings := warnings r @ [strip_warning]\<rparr>)
                    else Rf_error (Error_text (GetValues b k)) (alt, r))
              else Return (string_elem b k) (alt, r))))
   \<and> (\<not> IsMaterialized alt1 \<and> skip_nul r1 \<longrightarrow>
      Materialize_string (alt1, r1) =
        Return (length (heap r1))
          (alt1\<lparr>data2 := Some (length (heap r1))\<rparr>,
           r1\<lparr>heap := heap r1 @ [string_elems (data1 alt1)],
              warnings := warnings r1 @ (if any_nul (data1 alt1) then [strip_warning] else [])\<rparr>))
   \<and> (\<not> IsMaterialized alt2 \<and> \<not> skip_nul r2 \<and> any_nul (data1 alt2) \<longrightarrow>
      (\<exists>view vec. first_nul (chunks (data1 alt2)) = Some view
         \<and> Materialize_string (alt2, r2) =
             Rf_error (Error_text view) (alt2, r2\<lparr>heap := heap r2 @ [vec]\<rparr>)))
   \<and> (CHR ''%'' \<notin> set view \<longrightarrow>
        (Rf_error (Error_text view) s :: ('x, 's) outcome) = R_error (Error_text view) s)"
proof -
  have c1: "\<not> IsNull a j \<and> CHR 0x00 \<in> set (GetValues a j) \<and> \<not> strip_out_nuls v1 \<longrightarrow>
      Convert v1 a j = Inl (Error_text (GetValues a j))"
    by (simp add: Convert_error has_nul_def)
  have c2: "Error_text view =
        ''embedded nul in string: '' @ [CHR 0x27]
        @ concat (map (\<lambda>c. if c \<noteq> CHR 0x00 then [c] else [CHR 0x5C, CHR ''0'']) view)
        @ [CHR 0x27]
        @ ''; to strip nuls when converting from Arrow to R, set options(arrow.skip_nul = TRUE)''"
    by (simp add: Error_text_def)
  have c3: "\<not> IsNull a j \<and> CHR 0x00 \<in> set (GetValues a j) \<and> strip_out_nuls v2 \<longrightarrow>
      (\<exists>v'. Convert v2 a j = Inr (CHARSXP (filter (\<lambda>c. c \<noteq> CHR 0x00) (GetValues a j)), v')
          \<and> nul_was_stripped v')"
  proof
    assume h: "\<not> IsNull a j \<and> CHR 0x00 \<in> set (GetValues a j) \<and> strip_out_nuls v2"
    then have "strip_out_nuls v2 \<or> \<not> has_nul a j" and "has_nul a j"
      by (simp_all add: has_nul_def)
    from Convert_ok [OF this(1)] this(2) h
    show "\<exists>v'. Convert v2 a j = Inr (CHARSXP (filter (\<lambda>c. c \<noteq> CHR 0x00) (GetValues a j)), v')
          \<and> nul_was_stripped v'"
      by (auto simp: string_elem_def strip_nuls_def)
  qed
  have c4: "\<not> IsMaterialized alt \<and> i < Length alt \<longrightarrow>
      (\<exists>b k. array' (ArrayResolve (data1 alt) i) = Some b \<and> index' (ArrayResolve (data1 alt) i) = k
         \<and> Elt_string (alt, r) i =
             (if has_nul b k
              then (if skip_nul r
                    then Return (CHARSXP (filter (\<lambda>c. c \<noteq> CHR 0x00) (GetValues b k)))
                           (alt, r\<lparr>warnings := warnings r @ [strip_warning]\<rparr>)
                    else Rf_error (Error_text (GetValues b k)) (alt, r))
              else Return (string_elem b k) (alt, r)))"
  proof
    assume "\<not> IsMaterialized alt \<and> i < Length alt"
    then have none: "Representation alt = None" and i: "i < Length alt"
      by (simp_all add: IsMaterialized_def)
    from Elt_string_unmaterialized [OF none i, of r] obtain b k where
      bk: "array' (ArrayResolve (data1 alt) i) = Some b" "index' (ArrayResolve (data1 alt) i) = k"
      and e: "Elt_string (alt, r) i =
         (if skip_nul r \<or> \<not> has_nul b k
          then Return (string_elem b k)
                 (alt, if has_nul b k then cpp11_warning strip_warning r else r)
          else Rf_error (Error_text (GetValues b k)) (alt, r))"
      by blast
    from e have "Elt_string (alt, r) i =
             (if has_nul b k
              then (if skip_nul r
                    then Return (CHARSXP (filter (\<lambda>c. c \<noteq> CHR 0x00) (GetValues b k)))
                           (alt, r\<lparr>warnings := warnings r @ [strip_warning]\<rparr>)
                    else Rf_error (Error_text (GetValues b k)) (alt, r))
              else Return (string_elem b k) (alt, r))"
      by (auto simp: string_elem_def has_nul_def strip_nuls_def cpp11_warning_def)
    with bk show "\<exists>b k. array' (ArrayResolve (data1 alt) i) = Some b
         \<and> index' (ArrayResolve (data1 alt) i) = k
         \<and> Elt_string (alt, r) i =
             (if has_nul b k
              then (if skip_nul r
                    then Return (CHARSXP (filter (\<lambda>c. c \<noteq> CHR 0x00) (GetValues b k)))
                           (alt, r\<lparr>warnings := warnings r @ [strip_warning]\<rparr>)
                    else Rf_error (Error_text (GetValues b k)) (alt, r))
              else Return (string_elem b k) (alt, r))"
      by blast
  qed
  have c5: "\<not> IsMaterialized alt1 \<and> skip_nul r1 \<longrightarrow>
      Materialize_string (alt1, r1) =
        Return (length (heap r1))
          (alt1\<lparr>data2 := Some (length (heap r1))\<rparr>,
           r1\<lparr>heap := heap r1 @ [string_elems (data1 alt1)],
              warnings := warnings r1 @ (if any_nul (data1 alt1) then [strip_warning] else [])\<rparr>)"
    by (simp add: IsMaterialized_def Materialize_string_ok)
  have c6: "\<not> IsMaterialized alt2 \<and> \<not> skip_nul r2 \<and> any_nul (data1 alt2) \<longrightarrow>
      (\<exists>view vec. first_nul (chunks (data1 alt2)) = Some view
         \<and> Materialize_string (alt2, r2) =
             Rf_error (Error_text view) (alt2, r2\<lparr>heap := heap r2 @ [vec]\<rparr>))"
  proof
    assume h: "\<not> IsMaterialized alt2 \<and> \<not> skip_nul r2 \<and> any_nul (data1 alt2)"
    then have none: "Representation alt2 = None" and ns: "\<not> skip_nul r2"
      by (simp_all add: IsMaterialized_def)
    from h first_nul_None [of "chunks (data1 alt2)"]
    obtain view where f: "first_nul (chunks (data1 alt2)) = Some view"
      by (auto simp: any_nul_def)
    from Materialize_string_error [OF none ns f] f
    show "\<exists>view vec. first_nul (chunks (data1 alt2)) = Some view
         \<and> Materialize_string (alt2, r2) =
             Rf_error (Error_text view) (alt2, r2\<lparr>heap := heap r2 @ [vec]\<rparr>)"
      by blast
  qed
  have c7: "CHR ''%'' \<notin> set view \<longrightarrow>
        (Rf_error (Error_text view) s :: ('x, 's) outcome) = R_error (Error_text view) s"
    by (simp add: Rf_error_Error_text)
  show ?thesis
    by (intro conjI c1 c2 c3 c4 c5 c6 c7 no_nul_Error_text)
qed



lemmas string_eval =
  Materialize_string_def Elt_string_def Make_def Representation_def SetRepresentation_def
  IsMaterialized_def Length_def ArrayResolve_def
  Rf_allocVector_def length_ca_def example_string_defs example_strings_materialized_def
  RStringViewer_init_def GetBoolOption_def Convert_def IsNull_def GetValues_def
  ConvertStripNul_def strip_step_def SET_STRING_ELT_def cpp11_warning_def Let_def
  skip_nul_def has_nul_def any_nul_def example_nul_string_def Rf_error_Error_text
  upt_rec [of _ "numeral _"] upt_rec [of _ "Suc _"]

theorem embedded_nul_policy_witness:
  "(\<not> IsNull example_string_chunk 1 \<and> CHR 0x00 \<in> set (GetValues example_string_chunk 1)
      \<and> \<not> strip_out_nuls (RStringViewer_init Map.empty))
   \<and> Convert (RStringViewer_init Map.empty) example_string_chunk 1
        = Inl (Error_text (GetValues example_string_chunk 1))
   \<and> Error_text example_nul_string =
        ''embedded nul in string: '' @ [CHR 0x27] @ [CHR ''c'', CHR 0x5C, CHR ''0'', CHR ''d'']
        @ [CHR 0x27]
        @ ''; to strip nuls when converting from Arrow to R, set options(arrow.skip_nul = TRUE)''
   \<and> (\<not> IsNull example_string_chunk 1 \<and> CHR 0x00 \<in> set (GetValues example_string_chunk 1)
      \<and> strip_out_nuls (RStringViewer_init [''arrow.skip_nul'' \<mapsto> True]))
   \<and> (\<exists>v'. Convert (RStringViewer_init [''arrow.skip_nul'' \<mapsto> True]) example_string_chunk 1
          = Inr (CHARSXP (filter (\<lambda>c. c \<noteq> CHR 0x00) (GetValues example_string_chunk 1)), v')
        \<and> nul_was_stripped v')
   \<and> (\<not> IsMaterialized (Make example_strings) \<and> 1 < Length (Make example_strings))
   \<and> Elt_string (Make example_strings, example_string_session [''arrow.skip_nul'' \<mapsto> True]) 1
        = Return (CHARSXP ''cd'')
            (Make example_strings,
             (example_string_session [''arrow.skip_nul'' \<mapsto> True])\<lparr>warnings := [strip_warning]\<rparr>)
   \<and> Elt_string (Make example_strings, example_string_session Map.empty) 1
        = R_error (Error_text example_nul_string)
            (Make example_strings, example_string_session Map.empty)
   \<and> (\<not> IsMaterialized (Make example_strings)
        \<and> skip_nul (example_string_session [''arrow.skip_nul'' \<mapsto> True]))
   \<and> Materialize_string
        (Make example_strings, example_string_session [''arrow.skip_nul'' \<mapsto> True]) =
        Return (length (heap (example_string_session [''arrow.skip_nul'' \<mapsto> True])))
          ((Make example_strings)
             \<lparr>data2 := Some (length (heap (example_string_session [''arrow.skip_nul'' \<mapsto> True])))\<rparr>,
           (example_string_session [''arrow.skip_nul'' \<mapsto> True])
             \<lparr>heap := heap (example_string_session [''arrow.skip_nul'' \<mapsto> True])
                       @ [string_elems (data1 (Make example_strings))],
              warnings := warnings (example_string_session [''arrow.skip_nul'' \<mapsto> True])
                       @ (if any_nul (data1 (Make example_strings)) then [strip_warning] else [])\<rparr>)
   \<and> (\<not> IsMaterialized (Make example_strings) \<and> \<not> skip_nul (example_string_session Map.empty)
        \<and> any_nul (data1 (Make example_strings)))
   \<and> (\<exists>view vec. first_nul (chunks (data1 (Make example_strings))) = Some view
         \<and> Materialize_string (Make example_strings, example_string_session Map.empty) =
             Rf_error (Error_text view)
               (Make example_strings,
                (example_string_session Map.empty)
                  \<lparr>heap := heap (example_string_session Map.empty) @ [vec]\<rparr>))"
proof -
  note T = embedded_nul_policy
    [where a = example_string_chunk and j = 1 and ?v1.0 = "RStringViewer_init Map.empty"
       and ?v2.0 = "RStringViewer_init [''arrow.skip_nul'' \<mapsto> True]"
       and view = example_nul_string
       and alt = "Make example_strings" and i = 1
       and r = "example_string_session [''arrow.skip_nul'' \<mapsto> True]"
       and ?alt1.0 = "Make example_strings"
       and ?r1.0 = "example_string_session [''arrow.skip_nul'' \<mapsto> True]"
       and ?alt2.0 = "Make example_strings"
       and ?r2.0 = "example_string_session Map.empty"]
  have h1: "\<not> IsNull example_string_chunk 1 \<and> CHR 0x00 \<in> set (GetValues example_string_chunk 1)
      \<and> \<not> strip_out_nuls (RStringViewer_init Map.empty)"
    by (simp add: string_eval)
  have h2: "\<not> IsNull example_string_chunk 1 \<and> CHR 0x00 \<in> set (GetValues example_string_chunk 1)
      \<and> strip_out_nuls (RStringViewer_init [''arrow.skip_nul'' \<mapsto> True])"
    by (simp add: string_eval)
  have h3: "\<not> IsMaterialized (Make example_strings) \<and> 1 < Length (Make example_strings)"
    by (simp add: string_eval)
  have h4: "\<not> IsMaterialized (Make example_strings)
        \<and> skip_nul (example_string_session [''arrow.skip_nul'' \<mapsto> True])"
    by (simp add: string_eval)
  have h5: "\<not> IsMaterialized (Make example_strings) \<and> \<not> skip_nul (example_string_session Map.empty)
        \<and> any_nul (data1 (Make example_strings))"
    by (simp add: string_eval)
  have e1: "Elt_string (Make example_strings, example_string_session [''arrow.skip_nul'' \<mapsto> True]) 1
        = Return (CHARSXP ''cd'')
            (Make example_strings,
             (example_string_session [''arrow.skip_nul'' \<mapsto> True])\<lparr>warnings := [strip_warning]\<rparr>)"
    by (simp add: string_eval)
  have e2: "Elt_string (Make example_strings, example_string_session Map.empty) 1
        = R_error (Error_text example_nul_string)
            (Make example_strings, example_string_session Map.empty)"
    by (simp add: string_eval)
  have e3: "Error_text example_nul_string =
        ''embedded nul in string: '' @ [CHR 0x27] @ [CHR ''c'', CHR 0x5C, CHR ''0'', CHR ''d'']
        @ [CHR 0x27]
        @ ''; to strip nuls when converting from Arrow to R, set options(arrow.skip_nul = TRUE)''"
    using T [THEN conjunct2, THEN conjunct1] by (simp add: example_nul_string_def)
  note c2 = conjunct2
  note A1 = T [THEN conjunct1, THEN mp, OF h1]
  note A4 = T [THEN c2, THEN c2, THEN c2, THEN conjunct1, THEN mp, OF h2]
  note A6 = T [THEN c2, THEN c2, THEN c2, THEN c2, THEN c2, THEN conjunct1, THEN mp, OF h4]
  note A7 = T [THEN c2, THEN c2, THEN c2, THEN c2, THEN c2, THEN c2, THEN conjunct1, THEN mp, OF h5]
  show ?thesis
    by (intro conjI h1 h2 h3 h4 h5 e1 e2 e3 A1 A4 A6 A7)
qed

text \<open>
  C8 fails on the code at a string that holds a percent sign. \<^verbatim>\<open>Error()\<close> builds the
  text the claim describes and passes it to \<^verbatim>\<open>Rf_error\<close> as the format, and not as the
  argument of a format \<^verbatim>\<open>"%s"\<close>. For the string \<open>50%%\<close> followed by a nul, the text holds
  the string with its two percent signs, and the message of the error that an element
  read and a materialization raise shows \<open>50%\<close>, with one. For the string \<open>100%s\<close>
  followed by a nul the format has a directive without its argument, and the behaviour
  of both calls is undefined.
\<close>

theorem Error_percent_format:
  "Error_text example_percent_string =
     ''embedded nul in string: '' @ [CHR 0x27] @ ''50%%'' @ [CHR 0x5C, CHR ''0'', CHR 0x27]
     @ ''; to strip nuls when converting from Arrow to R, set options(arrow.skip_nul = TRUE)''
   \<and> Elt_string (Make example_percent_strings, example_string_session Map.empty) 0 =
       R_error
         (''embedded nul in string: '' @ [CHR 0x27] @ ''50%'' @ [CHR 0x5C, CHR ''0'', CHR 0x27]
          @ ''; to strip nuls when converting from Arrow to R, set options(arrow.skip_nul = TRUE)'')
         (Make example_percent_strings, example_string_session Map.empty)
   \<and> Materialize_string (Make example_percent_strings, example_string_session Map.empty) =
       R_error
         (''embedded nul in string: '' @ [CHR 0x27] @ ''50%'' @ [CHR 0x5C, CHR ''0'', CHR 0x27]
          @ ''; to strip nuls when converting from Arrow to R, set options(arrow.skip_nul = TRUE)'')
         (Make example_percent_strings,
          (example_string_session Map.empty)\<lparr>heap := [[NA_STRING]]\<rparr>)
   \<and> Elt_string (Make example_directive_strings, example_string_session Map.empty) 0 = Crash
   \<and> Materialize_string (Make example_directive_strings, example_string_session Map.empty)
       = Crash"
  by (simp add: Elt_string_def Materialize_string_def Make_def Representation_def
      ArrayResolve_def Rf_allocVector_def length_ca_def example_string_session_def
      RStringViewer_init_def GetBoolOption_def Convert_def IsNull_def GetValues_def
      Let_def Rf_error_def Error_text_def example_percent_string_def
      example_percent_strings_def example_directive_strings_def
      upt_rec [of _ "numeral _"] upt_rec [of _ "Suc _"])


section \<open>Properties of the factor class: unification and codes\<close>

lemma memo_index_Some: "memo_index memo v = Some k \<Longrightarrow> k < length memo \<and> memo ! k = v"
  by (induction memo arbitrary: k) (auto split: if_splits)

lemma memo_index_None: "memo_index memo v = None \<Longrightarrow> v \<notin> set memo"
  by (induction memo) (auto split: if_splits)

lemma memo_index_append:
  "memo_index memo v = Some k \<Longrightarrow> memo_index (memo @ ext) v = Some k"
  by (induction memo arbitrary: k) (auto split: if_splits)

lemma memo_index_snoc: "memo_index memo v = None \<Longrightarrow> memo_index (memo @ [v]) v = Some (length memo)"
  by (induction memo) (auto split: if_splits)

lemma GetOrInsert_spec:
  "GetOrInsert memo v = (k, memo') \<Longrightarrow>
   (\<exists>ext. memo' = memo @ ext) \<and> memo_index memo' v = Some k"
  by (auto simp: GetOrInsert_def memo_index_snoc split: option.splits)

lemma Unify_spec:
  "Unify dict memo = (ts, memo') \<Longrightarrow>
   (\<exists>ext. memo' = memo @ ext) \<and> length ts = length dict
   \<and> (\<forall>i < length dict. \<exists>k. memo_index memo' (dict ! i) = Some k \<and> ts ! i = of_nat k)"
proof (induction dict arbitrary: memo ts memo')
  case Nil
  then show ?case by simp
next
  case (Cons v vs)
  obtain k memo1 where g: "GetOrInsert memo v = (k, memo1)"
    by (cases "GetOrInsert memo v")
  obtain ts1 memo2 where u: "Unify vs memo1 = (ts1, memo2)"
    by (cases "Unify vs memo1")
  from Cons.prems g u have ts: "ts = of_nat k # ts1" and m: "memo' = memo2"
    by simp_all
  from GetOrInsert_spec [OF g] obtain ext1 where
    e1: "memo1 = memo @ ext1" and k: "memo_index memo1 v = Some k"
    by blast
  from Cons.IH [OF u] obtain ext2 where
    e2: "memo2 = memo1 @ ext2" and l: "length ts1 = length vs"
    and r: "\<forall>i < length vs. \<exists>k. memo_index memo2 (vs ! i) = Some k \<and> ts1 ! i = of_nat k"
    by blast
  from k e2 have k2: "memo_index memo2 v = Some k"
    by (simp add: memo_index_append)
  have "\<exists>k. memo_index memo' ((v # vs) ! i) = Some k \<and> ts ! i = of_nat k"
    if "i < length (v # vs)" for i
  proof (cases i)
    case 0
    with k2 ts m show ?thesis by simp
  next
    case (Suc n)
    with that r ts m show ?thesis by simp
  qed
  moreover from e1 e2 m have "\<exists>ext. memo' = memo @ ext" by simp
  ultimately show ?case using ts l by simp
qed

lemma Unify_chunks_spec:
  "Unify_chunks cs memo = (tss, memo') \<Longrightarrow>
   (\<exists>ext. memo' = memo @ ext) \<and> length tss = length cs
   \<and> (\<forall>p < length cs. \<forall>i < length (dictionary (cs ! p)).
         \<exists>k. memo_index memo' (dictionary (cs ! p) ! i) = Some k \<and> tss ! p ! i = of_nat k)"
proof (induction cs arbitrary: memo tss memo')
  case Nil
  then show ?case by simp
next
  case (Cons c cs)
  obtain t memo1 where u1: "Unify (dictionary c) memo = (t, memo1)"
    by (cases "Unify (dictionary c) memo")
  obtain ts memo2 where u2: "Unify_chunks cs memo1 = (ts, memo2)"
    by (cases "Unify_chunks cs memo1")
  from Cons.prems u1 u2 have tss: "tss = t # ts" and m: "memo' = memo2"
    by simp_all
  from Unify_spec [OF u1] obtain ext1 where
    e1: "memo1 = memo @ ext1"
    and r1: "\<forall>i < length (dictionary c). \<exists>k. memo_index memo1 (dictionary c ! i) = Some k
               \<and> t ! i = of_nat k"
    by blast
  from Cons.IH [OF u2] obtain ext2 where
    e2: "memo2 = memo1 @ ext2" and l: "length ts = length cs"
    and r2: "\<forall>p < length cs. \<forall>i < length (dictionary (cs ! p)).
         \<exists>k. memo_index memo2 (dictionary (cs ! p) ! i) = Some k \<and> ts ! p ! i = of_nat k"
    by blast
  have "\<exists>k. memo_index memo' (dictionary ((c # cs) ! p) ! i) = Some k \<and> tss ! p ! i = of_nat k"
    if "p < length (c # cs)" and "i < length (dictionary ((c # cs) ! p))" for p i
  proof (cases p)
    case 0
    with that r1 obtain k where "memo_index memo1 (dictionary c ! i) = Some k" "t ! i = of_nat k"
      by auto
    with e2 0 tss m show ?thesis by (simp add: memo_index_append)
  next
    case (Suc n)
    with that r2 tss m show ?thesis by simp
  qed
  moreover from e1 e2 m have "\<exists>ext. memo' = memo @ ext" by simp
  ultimately show ?case using tss l by simp
qed

lemma ArrayResolve_loop_position:
  "array' (ArrayResolve_loop cs i k) = Some c \<Longrightarrow>
   k \<le> position' (ArrayResolve_loop cs i k) \<and> position' (ArrayResolve_loop cs i k) - k < length cs
   \<and> cs ! (position' (ArrayResolve_loop cs i k) - k) = c"
proof (induction cs arbitrary: i k)
  case Nil
  then show ?case by simp
next
  case (Cons a cs)
  show ?case
  proof (cases "i < arr_length a")
    case True
    with Cons.prems show ?thesis by simp
  next
    case False
    with Cons.prems have "array' (ArrayResolve_loop cs (i - arr_length a) (k + 1)) = Some c"
      by simp
    from Cons.IH [OF this] False show ?thesis
      by (auto simp: Suc_diff_le)
  qed
qed

lemma ArrayResolve_position:
  "array' (ArrayResolve ca i) = Some c \<Longrightarrow>
   position' (ArrayResolve ca i) < length (chunks ca) \<and> chunks ca ! position' (ArrayResolve ca i) = c"
  using ArrayResolve_loop_position [of "chunks ca" i 0 c] by (simp add: ArrayResolve_def)

lemma no_unification_same_dictionary:
  assumes "\<not> DictionaryChunkArrayNeedUnification ca" and "chunks ca = c0 # rest"
    and "c \<in> set (chunks ca)"
  shows "dictionary c = dictionary c0"
  using assms by (auto simp: DictionaryChunkArrayNeedUnification_def list_ex_iff)

lemma AltrepFactor_Make_fields:
  assumes "AltrepFactor_Make ca = Some (array_factor alt)"
  shows "data1 alt = ca \<and> data2 alt = None
    \<and> WasUnified alt = DictionaryChunkArrayNeedUnification ca
    \<and> (\<exists>c0 rest. chunks ca = c0 # rest \<and> dict_type c0 = STRING
         \<and> (if DictionaryChunkArrayNeedUnification ca
             then arrays_transpose alt = Some (fst (Unify_chunks (chunks ca) []))
                  \<and> levels alt = snd (Unify_chunks (chunks ca) [])
             else arrays_transpose alt = None \<and> levels alt = dictionary c0))"
  using assms
  by (auto simp: AltrepFactor_Make_def WasUnified_def Let_def case_prod_beta
      split: list.splits if_splits)

lemma Elt_factor_formula:
  assumes none: "Representation alt = None" and v: "valid_element (data1 alt) i"
  shows "\<exists>c. array' (ArrayResolve (data1 alt) i) = Some c
    \<and> Elt_factor alt r i =
        Some ((case arrays_transpose alt of
                 Some arrays \<Rightarrow>
                   arrays ! position' (ArrayResolve (data1 alt) i)
                     ! nat (GetValues c (index' (ArrayResolve (data1 alt) i)))
               | None \<Rightarrow> word_of_int (GetValues c (index' (ArrayResolve (data1 alt) i)))) + 1)"
proof -
  let ?res = "ArrayResolve (data1 alt) i"
  from v obtain c where c: "array' ?res = Some c"
    and int: "integer_index c" and nn: "\<not> IsNull c (index' ?res)"
    by (auto simp: valid_element_def Let_def split: option.splits)
  from int none c nn have "Elt_factor alt r i =
        Some ((case arrays_transpose alt of
                 Some arrays \<Rightarrow> arrays ! position' ?res ! nat (GetValues c (index' ?res))
               | None \<Rightarrow> word_of_int (GetValues c (index' ?res))) + 1)"
    by (auto simp: Elt_factor_def Let_def integer_index_def split: option.splits)
  with c show ?thesis by blast
qed

lemma Elt_factor_label:
  assumes mk: "AltrepFactor_Make ca = Some (array_factor alt)" and v: "valid_element ca i"
  shows "\<exists>k. Elt_factor alt r i = Some (of_nat k + 1) \<and> k < length (levels alt)
     \<and> levels alt ! k = label_of ca i
     \<and> (if WasUnified alt then memo_index (levels alt) (label_of ca i) = Some k else True)"
proof -
  let ?res = "ArrayResolve ca i"
  from AltrepFactor_Make_fields [OF mk] obtain c0 rest where
    d1: "data1 alt = ca" and none: "Representation alt = None"
    and wu: "WasUnified alt = DictionaryChunkArrayNeedUnification ca"
    and cs: "chunks ca = c0 # rest"
    and f: "if DictionaryChunkArrayNeedUnification ca
             then arrays_transpose alt = Some (fst (Unify_chunks (chunks ca) []))
                  \<and> levels alt = snd (Unify_chunks (chunks ca) [])
             else arrays_transpose alt = None \<and> levels alt = dictionary c0"
    by (auto simp: Representation_def)
  from v obtain c where c: "array' ?res = Some c"
    and pos: "0 \<le> GetValues c (index' ?res)"
    and lt: "nat (GetValues c (index' ?res)) < length (dictionary c)"
    by (auto simp: valid_element_def Let_def split: option.splits)
  let ?idx = "GetValues c (index' ?res)"
  from c have lab: "label_of ca i = dictionary c ! nat ?idx"
    by (simp add: label_of_def)
  from ArrayResolve_position [OF c] have p: "position' ?res < length (chunks ca)"
    and cp: "chunks ca ! position' ?res = c"
    by simp_all
  from v d1 have "valid_element (data1 alt) i" by simp
  from Elt_factor_formula [OF none this, of r, unfolded d1] c
  have elt: "Elt_factor alt r i =
        Some ((case arrays_transpose alt of
                 Some arrays \<Rightarrow> arrays ! position' ?res ! nat ?idx
               | None \<Rightarrow> word_of_int ?idx) + 1)"
    by auto
  show ?thesis
  proof (cases "DictionaryChunkArrayNeedUnification ca")
    case True
    obtain tss memo where u: "Unify_chunks (chunks ca) [] = (tss, memo)"
      by (cases "Unify_chunks (chunks ca) []")
    with True f have at: "arrays_transpose alt = Some tss" and lv: "levels alt = memo"
      by simp_all
    from Unify_chunks_spec [OF u] p cp lt obtain k where
      k: "memo_index memo (dictionary c ! nat ?idx) = Some k"
      and t: "tss ! position' ?res ! nat ?idx = of_nat k"
      by blast
    from memo_index_Some [OF k] have "k < length memo" "memo ! k = dictionary c ! nat ?idx"
      by simp_all
    with elt at lv t k lab wu True show ?thesis by auto
  next
    case False
    with f have at: "arrays_transpose alt = None" and lv: "levels alt = dictionary c0"
      by simp_all
    from p cp have "c \<in> set (chunks ca)" by (auto simp: in_set_conv_nth)
    from no_unification_same_dictionary [OF False cs this] have dc: "dictionary c = dictionary c0" .
    from pos have "(word_of_int ?idx :: 32 word) = of_nat (nat ?idx)"
      by simp
    with elt at have "Elt_factor alt r i = Some (of_nat (nat ?idx) + 1)" by simp
    with lt dc lv lab wu False show ?thesis by auto
  qed
qed

text \<open>
  C6, as amended. \<open>AltrepFactor_Make\<close> unifies the dictionaries exactly when
  \<open>DictionaryChunkArrayNeedUnification\<close> says that they differ, and no call on the
  object changes the transpose buffers or the levels afterwards. For every element that
  has a label (any of the eight integer index types), \<open>Elt\<close> on the object that is not
  materialized is the index, sent through the transpose buffer of the element's chunk
  when the object was unified and unchanged otherwise, plus one; that code minus one is a
  position in the levels, and the level there is the element's label. Two such elements
  with the same label receive the same code whenever the object was unified or the
  levels hold no label twice.
\<close>

theorem factor_codes:
  assumes mk: "AltrepFactor_Make ca = Some (array_factor alt)"
    and v1: "valid_element ca i1" and v2: "valid_element ca i2"
  shows "data1 alt = ca \<and> \<not> IsMaterialized alt
    \<and> WasUnified alt = DictionaryChunkArrayNeedUnification ca
    \<and> arrays_transpose (fst (fold exec_factor cs (alt, r))) = arrays_transpose alt
    \<and> levels (fst (fold exec_factor cs (alt, r))) = levels alt
    \<and> (\<exists>c. array' (ArrayResolve ca i1) = Some c
        \<and> Elt_factor alt r i1 =
            Some ((case arrays_transpose alt of
                     Some arrays \<Rightarrow>
                       arrays ! position' (ArrayResolve ca i1)
                         ! nat (GetValues c (index' (ArrayResolve ca i1)))
                   | None \<Rightarrow> word_of_int (GetValues c (index' (ArrayResolve ca i1)))) + 1))
    \<and> (\<exists>k. Elt_factor alt r i1 = Some (of_nat k + 1) \<and> k < length (levels alt)
          \<and> levels alt ! k = label_of ca i1)
    \<and> (label_of ca i1 = label_of ca i2 \<and> (WasUnified alt \<or> distinct (levels alt)) \<longrightarrow>
          Elt_factor alt r i1 = Elt_factor alt r i2)"
proof -
  from AltrepFactor_Make_fields [OF mk]
  have d1: "data1 alt = ca" and none: "Representation alt = None"
    and wu: "WasUnified alt = DictionaryChunkArrayNeedUnification ca"
    by (simp_all add: Representation_def)
  have frame: "arrays_transpose (fst (fold exec_factor cs s)) = arrays_transpose (fst s)
      \<and> levels (fst (fold exec_factor cs s)) = levels (fst s)" for s
    by (induction cs arbitrary: s) (simp_all add: exec_factor_frame)
  from v1 d1 have "valid_element (data1 alt) i1" by simp
  from Elt_factor_formula [OF none this, of r, unfolded d1]
  have formula: "\<exists>c. array' (ArrayResolve ca i1) = Some c
        \<and> Elt_factor alt r i1 =
            Some ((case arrays_transpose alt of
                     Some arrays \<Rightarrow>
                       arrays ! position' (ArrayResolve ca i1)
                         ! nat (GetValues c (index' (ArrayResolve ca i1)))
                   | None \<Rightarrow> word_of_int (GetValues c (index' (ArrayResolve ca i1)))) + 1)" .
  from Elt_factor_label [OF mk v1, of r] obtain k1 where
    k1: "Elt_factor alt r i1 = Some (of_nat k1 + 1)" "k1 < length (levels alt)"
      "levels alt ! k1 = label_of ca i1"
      "if WasUnified alt then memo_index (levels alt) (label_of ca i1) = Some k1 else True"
    by blast
  from Elt_factor_label [OF mk v2, of r] obtain k2 where
    k2: "Elt_factor alt r i2 = Some (of_nat k2 + 1)" "k2 < length (levels alt)"
      "levels alt ! k2 = label_of ca i2"
      "if WasUnified alt then memo_index (levels alt) (label_of ca i2) = Some k2 else True"
    by blast
  have same: "Elt_factor alt r i1 = Elt_factor alt r i2"
    if "label_of ca i1 = label_of ca i2 \<and> (WasUnified alt \<or> distinct (levels alt))"
  proof (cases "WasUnified alt")
    case True
    with k1(4) k2(4) that have "k1 = k2" by simp
    with k1(1) k2(1) show ?thesis by simp
  next
    case False
    with that have "distinct (levels alt)" "levels alt ! k1 = levels alt ! k2"
      using k1(3) k2(3) by simp_all
    with k1(2) k2(2) have "k1 = k2" by (simp add: nth_eq_iff_index_eq)
    with k1(1) k2(1) show ?thesis by simp
  qed
  from k1 have lab: "\<exists>k. Elt_factor alt r i1 = Some (of_nat k + 1) \<and> k < length (levels alt)
          \<and> levels alt ! k = label_of ca i1"
    by blast
  from d1 none wu frame [of "(alt, r)"] formula lab same show ?thesis
    by (simp add: IsMaterialized_def)
qed

lemmas factor_eval =
  AltrepFactor_Make_def DictionaryChunkArrayNeedUnification_def GetOrInsert_def Let_def
  valid_element_def label_of_def ArrayResolve_def integer_index_def IsNull_def GetValues_def
  Elt_factor_def Representation_def WasUnified_def
  example_dictionary_def example_dict1_def example_dict2_def example_factor_def
  example_duplicates_def example_dup1_def example_dup2_def example_dup_factor_def

theorem factor_codes_witness:
  "AltrepFactor_Make example_dictionary = Some (array_factor example_factor)
   \<and> valid_element example_dictionary 1 \<and> valid_element example_dictionary 2
   \<and> position' (ArrayResolve example_dictionary 1) = 0
   \<and> position' (ArrayResolve example_dictionary 2) = 1
   \<and> label_of example_dictionary 1 = ''b'' \<and> label_of example_dictionary 2 = ''b''
   \<and> (label_of example_dictionary 1 = label_of example_dictionary 2
        \<and> (WasUnified example_factor \<or> distinct (levels example_factor)))
   \<and> Elt_factor example_factor example_session 1 = Elt_factor example_factor example_session 2
   \<and> Elt_factor example_factor example_session 1 = Some 2
   \<and> WasUnified example_factor = DictionaryChunkArrayNeedUnification example_dictionary
   \<and> arrays_transpose
        (fst (fold exec_factor [Call_Elt 1, Call_Duplicate] (example_factor, example_session)))
      = arrays_transpose example_factor"
proof -
  have mk: "AltrepFactor_Make example_dictionary = Some (array_factor example_factor)"
    by (simp add: factor_eval)
  have v1: "valid_element example_dictionary 1" and v2: "valid_element example_dictionary 2"
    by (simp_all add: factor_eval)
  have p: "position' (ArrayResolve example_dictionary 1) = 0"
      "position' (ArrayResolve example_dictionary 2) = 1"
    by (simp_all add: factor_eval)
  have l: "label_of example_dictionary 1 = ''b''" "label_of example_dictionary 2 = ''b''"
    by (simp_all add: factor_eval)
  have h: "label_of example_dictionary 1 = label_of example_dictionary 2
        \<and> (WasUnified example_factor \<or> distinct (levels example_factor))"
    by (simp add: l) (simp add: factor_eval)
  have e: "Elt_factor example_factor example_session 1 = Some 2"
    by (simp add: factor_eval)
  note T = factor_codes [OF mk v1 v2, of "[Call_Elt 1, Call_Duplicate]" example_session]
  note c2 = conjunct2
  note W = T [THEN c2, THEN c2, THEN conjunct1]
  note F = T [THEN c2, THEN c2, THEN c2, THEN conjunct1]
  note S = T [THEN c2, THEN c2, THEN c2, THEN c2, THEN c2, THEN c2, THEN c2, THEN mp, OF h]
  show ?thesis
    by (intro conjI mk v1 v2 p l h e W F S)
qed

text \<open>
  C6, as stated, fails: two chunks with the same dictionary need no unification, the
  identity mapping is used, and when that dictionary lists a label twice two elements in
  different chunks with the same string value receive different codes.
\<close>

theorem factor_codes_duplicate_labels_counterexample:
  "AltrepFactor_Make example_duplicates = Some (array_factor example_dup_factor)
   \<and> valid_element example_duplicates 0 \<and> valid_element example_duplicates 1
   \<and> position' (ArrayResolve example_duplicates 0) = 0
   \<and> position' (ArrayResolve example_duplicates 1) = 1
   \<and> label_of example_duplicates 0 = ''a'' \<and> label_of example_duplicates 1 = ''a''
   \<and> Elt_factor example_dup_factor example_session 0 = Some 1
   \<and> Elt_factor example_dup_factor example_session 1 = Some 2
   \<and> Elt_factor example_dup_factor example_session 0
        \<noteq> Elt_factor example_dup_factor example_session 1"
  by (simp add: factor_eval)

section \<open>Element access and the materialized vector, for the three classes\<close>

text \<open>
  A string materialization that returns has met no embedded nul, or was allowed to strip
  them.
\<close>

lemma Materialize_string_Return_ok:
  assumes none: "Representation alt = None"
    and ret: "Materialize_string (alt, r) = Return x s'"
  shows "skip_nul r \<or> \<not> any_nul (data1 alt)"
proof (rule ccontr)
  assume "\<not> (skip_nul r \<or> \<not> any_nul (data1 alt))"
  then have ns: "\<not> skip_nul r" and an: "any_nul (data1 alt)" by simp_all
  from an first_nul_None [of "chunks (data1 alt)"]
  obtain view where f: "first_nul (chunks (data1 alt)) = Some view"
    by (auto simp: any_nul_def)
  from Materialize_string_error [OF none ns f] ret show False by auto
qed

text \<open>
  C1. For every chunked array wrapped by one of the three classes (any chunk layout, any
  offsets and bitmaps) and every index \<open>i\<close> below the length: the value the element
  access returns before materialization is element \<open>i\<close> of the vector the
  materialization builds and stores as data2. The vector has the length of the source,
  and the element access still returns the same value afterwards. For the primitive
  class this is \<open>Elt\<close> against \<open>Materialize\<close>; for the factor class, over
  dictionary chunks with integer indices inside their dictionaries, \<open>Elt_factor\<close>
  against \<open>Materialize_factor\<close>; for the string class, whenever
  \<open>Materialize_string\<close> returns a vector, \<open>Elt_string\<close> returns, and returns that
  vector's element.
\<close>

theorem Elt_eq_Materialize:
  "(\<not> IsMaterialized alt \<and> i < Length alt \<longrightarrow>
      (case Materialize na (alt, r) of (x, alt', r') \<Rightarrow>
         IsMaterialized alt' \<and> Representation alt' = Some x
         \<and> length (heap r' ! x) = Length alt
         \<and> Elt na alt i = Some (heap r' ! x ! i)
         \<and> Elt na alt' i = Elt na alt i))
   \<and> (\<not> IsMaterialized falt \<and> wf_factor falt \<and> i < Length falt \<longrightarrow>
      (case Materialize_factor (falt, fr) of (x, alt', r') \<Rightarrow>
         IsMaterialized alt' \<and> Representation alt' = Some x
         \<and> length (heap r' ! x) = Length falt
         \<and> Elt_factor falt fr i = Some (heap r' ! x ! i)
         \<and> Elt_factor alt' r' i = Elt_factor falt fr i))
   \<and> (\<not> IsMaterialized salt \<and> i < Length salt
        \<and> Materialize_string (salt, sr) = Return x (salt', sr') \<longrightarrow>
      IsMaterialized salt' \<and> Representation salt' = Some x
      \<and> length (heap sr' ! x) = Length salt
      \<and> (\<exists>s'. Elt_string (salt, sr) i = Return (heap sr' ! x ! i) s')
      \<and> Elt_string (salt', sr') i = Return (heap sr' ! x ! i) (salt', sr'))"
proof -
  have p: "\<not> IsMaterialized alt \<and> i < Length alt \<longrightarrow>
      (case Materialize na (alt, r) of (x, alt', r') \<Rightarrow>
         IsMaterialized alt' \<and> Representation alt' = Some x
         \<and> length (heap r' ! x) = Length alt
         \<and> Elt na alt i = Some (heap r' ! x ! i)
         \<and> Elt na alt' i = Elt na alt i)"
  proof
    assume "\<not> IsMaterialized alt \<and> i < Length alt"
    then have none: "Representation alt = None" and i: "i < Length alt"
      by (simp_all add: IsMaterialized_def)
    have len: "Length (alt\<lparr>data2 := Some (length (heap r))\<rparr>) = Length alt"
      by (simp add: Length_def)
    show "case Materialize na (alt, r) of (x, alt', r') \<Rightarrow>
         IsMaterialized alt' \<and> Representation alt' = Some x
         \<and> length (heap r' ! x) = Length alt
         \<and> Elt na alt i = Some (heap r' ! x ! i)
         \<and> Elt na alt' i = Elt na alt i"
      using i len
      by (simp add: Materialize_unmaterialized [OF none] IsMaterialized_def Representation_def
          Elt_all_elems length_all_elems Length_def)
  qed
  have f: "\<not> IsMaterialized falt \<and> wf_factor falt \<and> i < Length falt \<longrightarrow>
      (case Materialize_factor (falt, fr) of (x, alt', r') \<Rightarrow>
         IsMaterialized alt' \<and> Representation alt' = Some x
         \<and> length (heap r' ! x) = Length falt
         \<and> Elt_factor falt fr i = Some (heap r' ! x ! i)
         \<and> Elt_factor alt' r' i = Elt_factor falt fr i)"
  proof
    assume "\<not> IsMaterialized falt \<and> wf_factor falt \<and> i < Length falt"
    then have none: "Representation falt = None" and wf: "wf_factor falt" and i: "i < Length falt"
      by (simp_all add: IsMaterialized_def)
    from Elt_factor_unmaterialized [OF none wf i, of fr]
    have e: "Elt_factor falt fr i = Some (factor_elems falt ! i)" .
    then show "case Materialize_factor (falt, fr) of (x, alt', r') \<Rightarrow>
         IsMaterialized alt' \<and> Representation alt' = Some x
         \<and> length (heap r' ! x) = Length falt
         \<and> Elt_factor falt fr i = Some (heap r' ! x ! i)
         \<and> Elt_factor alt' r' i = Elt_factor falt fr i"
      by (simp add: Materialize_factor_unmaterialized [OF none wf] IsMaterialized_def
          Representation_def length_factor_elems Elt_factor_def)
  qed
  have s: "\<not> IsMaterialized salt \<and> i < Length salt
        \<and> Materialize_string (salt, sr) = Return x (salt', sr') \<longrightarrow>
      IsMaterialized salt' \<and> Representation salt' = Some x
      \<and> length (heap sr' ! x) = Length salt
      \<and> (\<exists>s'. Elt_string (salt, sr) i = Return (heap sr' ! x ! i) s')
      \<and> Elt_string (salt', sr') i = Return (heap sr' ! x ! i) (salt', sr')"
  proof
    assume h: "\<not> IsMaterialized salt \<and> i < Length salt
        \<and> Materialize_string (salt, sr) = Return x (salt', sr')"
    then have none: "Representation salt = None" and i: "i < Length salt"
      and ret: "Materialize_string (salt, sr) = Return x (salt', sr')"
      by (simp_all add: IsMaterialized_def)
    from Materialize_string_Return_ok [OF none ret]
    have ok: "skip_nul sr \<or> \<not> any_nul (data1 salt)" .
    from Materialize_string_ok [OF none ok] ret
    have x: "x = length (heap sr)" and a: "salt' = salt\<lparr>data2 := Some (length (heap sr))\<rparr>"
      and hp: "heap sr' = heap sr @ [string_elems (data1 salt)]"
      by simp_all
    from x hp have vec: "heap sr' ! x = string_elems (data1 salt)" by simp
    from Elt_string_unmaterialized [OF none i, of sr] obtain b k where
      b: "b \<in> set (chunks (data1 salt))" "k < arr_length b"
      and el: "string_elem b k = string_elems (data1 salt) ! i"
      and e: "Elt_string (salt, sr) i =
         (if skip_nul sr \<or> \<not> has_nul b k
          then Return (string_elem b k)
                 (salt, if has_nul b k then cpp11_warning strip_warning sr else sr)
          else Rf_error (Error_text (GetValues b k)) (salt, sr))"
      by blast
    from ok b have "skip_nul sr \<or> \<not> has_nul b k"
      by (auto simp: any_nul_def list_ex_iff)
    with e el vec have "\<exists>s'. Elt_string (salt, sr) i = Return (heap sr' ! x ! i) s'"
      by simp
    moreover from a x have "Elt_string (salt', sr') i = Return (heap sr' ! x ! i) (salt', sr')"
      by (simp add: Elt_string_def Representation_def)
    ultimately show "IsMaterialized salt' \<and> Representation salt' = Some x
      \<and> length (heap sr' ! x) = Length salt
      \<and> (\<exists>s'. Elt_string (salt, sr) i = Return (heap sr' ! x ! i) s')
      \<and> Elt_string (salt', sr') i = Return (heap sr' ! x ! i) (salt', sr')"
      using a x vec
      by (simp add: IsMaterialized_def Representation_def length_string_elems Length_def)
  qed
  show ?thesis by (intro conjI p f s)
qed

theorem Elt_eq_Materialize_witness:
  "(\<not> IsMaterialized (Make example_int32) \<and> 1 < Length (Make example_int32))
   \<and> (case Materialize NA_INTEGER (Make example_int32, example_session) of (x, alt', r') \<Rightarrow>
        IsMaterialized alt' \<and> Representation alt' = Some x
        \<and> length (heap r' ! x) = Length (Make example_int32)
        \<and> Elt NA_INTEGER (Make example_int32) 1 = Some (heap r' ! x ! 1)
        \<and> Elt NA_INTEGER alt' 1 = Elt NA_INTEGER (Make example_int32) 1)
   \<and> Elt NA_INTEGER (Make example_int32) 1 = Some NA_INTEGER
   \<and> (\<not> IsMaterialized example_factor \<and> wf_factor example_factor \<and> 1 < Length example_factor)
   \<and> (case Materialize_factor (example_factor, example_session) of (x, alt', r') \<Rightarrow>
        IsMaterialized alt' \<and> Representation alt' = Some x
        \<and> length (heap r' ! x) = Length example_factor
        \<and> Elt_factor example_factor example_session 1 = Some (heap r' ! x ! 1)
        \<and> Elt_factor alt' r' 1 = Elt_factor example_factor example_session 1)
   \<and> Elt_factor example_factor example_session 1 = Some 2
   \<and> (\<not> IsMaterialized (Make example_strings) \<and> 1 < Length (Make example_strings)
        \<and> Materialize_string
             (Make example_strings, example_string_session [''arrow.skip_nul'' \<mapsto> True])
           = Return 0 (fst example_strings_materialized, snd example_strings_materialized))
   \<and> (IsMaterialized (fst example_strings_materialized)
        \<and> Representation (fst example_strings_materialized) = Some 0
        \<and> length (heap (snd example_strings_materialized) ! 0) = Length (Make example_strings)
        \<and> (\<exists>s'. Elt_string
                  (Make example_strings, example_string_session [''arrow.skip_nul'' \<mapsto> True]) 1
                = Return (heap (snd example_strings_materialized) ! 0 ! 1) s')
        \<and> Elt_string (fst example_strings_materialized, snd example_strings_materialized) 1
            = Return (heap (snd example_strings_materialized) ! 0 ! 1)
                (fst example_strings_materialized, snd example_strings_materialized))
   \<and> heap (snd example_strings_materialized) ! 0 ! 1 = CHARSXP ''cd''"
proof -
  have h1: "\<not> IsMaterialized (Make example_int32) \<and> 1 < Length (Make example_int32)"
    by (simp add: IsMaterialized_def Representation_def Length_def Make_def length_ca_def
        example_int32_def example_chunk1_def example_chunk2_def)
  have e1: "Elt NA_INTEGER (Make example_int32) 1 = Some NA_INTEGER"
    by (simp add: Elt_def Make_def ArrayResolve_def example_int32_def example_chunk1_def
        example_chunk2_def IsNull_def Let_def)
  have h2: "\<not> IsMaterialized example_factor \<and> wf_factor example_factor \<and> 1 < Length example_factor"
    by (simp add: IsMaterialized_def Representation_def Length_def length_ca_def
        wf_factor_def wf_dictionary_array_def integer_index_def valid_index_def
        example_defs IsNull_def GetValues_def upt_rec [of _ "numeral _"] upt_rec [of _ "Suc _"])
  have e2: "Elt_factor example_factor example_session 1 = Some 2"
    by (simp add: factor_eval)
  have h3: "\<not> IsMaterialized (Make example_strings) \<and> 1 < Length (Make example_strings)
        \<and> Materialize_string
             (Make example_strings, example_string_session [''arrow.skip_nul'' \<mapsto> True])
           = Return 0 (fst example_strings_materialized, snd example_strings_materialized)"
    by (simp add: string_eval)
  have e3: "heap (snd example_strings_materialized) ! 0 ! 1 = CHARSXP ''cd''"
    by (simp add: example_strings_materialized_def)
  note T = Elt_eq_Materialize
    [where alt = "Make example_int32" and i = 1 and na = NA_INTEGER and r = example_session
       and falt = example_factor and fr = example_session
       and salt = "Make example_strings"
       and sr = "example_string_session [''arrow.skip_nul'' \<mapsto> True]"
       and x = 0 and salt' = "fst example_strings_materialized"
       and sr' = "snd example_strings_materialized"]
  note P = T [THEN conjunct1, THEN mp, OF h1]
  note F = T [THEN conjunct2, THEN conjunct1, THEN mp, OF h2]
  note S = T [THEN conjunct2, THEN conjunct2, THEN mp, OF h3]
  show ?thesis
    by (intro conjI h1 h2 h3 e1 e2 e3 P F S)
qed

end
